theory Spec2Isabelle
  imports Main "HOL-Library.Sublist"
begin

section \<open>Errors\<close>

text \<open>
  Every \<^verbatim>\<open>throw\<close> and every rejected promise of the client is a value of this type.
  \<^item> \<open>PathEscape candidate root\<close>: the \<^verbatim>\<open>Error\<close> thrown by \<^verbatim>\<open>toAbsolutePath\<close>
    ("Resolved path ... escapes workspace root ...");
  \<^item> \<open>ConnectionNotInitialized\<close>: the \<^verbatim>\<open>Error\<close> thrown by \<^verbatim>\<open>assertConnection\<close>
    ("LSP connection has not been initialized");
  \<^item> \<open>InitializeTimeout ms\<close>: the rejection of the handshake timer
    ("Timed out after ms waiting for LSP initialize response");
  \<^item> \<open>SpawnError m\<close>: the \<^verbatim>\<open>error\<close> event of the child process;
  \<^item> \<open>RequestFailed m\<close>: a request or notification promise of the connection that rejects;
  \<^item> \<open>ReadError p\<close>: \<^verbatim>\<open>fs.readFile\<close> rejecting for path \<open>p\<close>;
  \<^item> \<open>NullDereference\<close>: the \<^verbatim>\<open>TypeError\<close> of a method call on \<^verbatim>\<open>null\<close>.
\<close>

datatype error =
    PathEscape string string
  | ConnectionNotInitialized
  | InitializeTimeout nat
  | SpawnError string
  | RequestFailed string
  | ReadError string
  | NullDereference

section \<open>Paths (\<^verbatim>\<open>util/path.ts\<close> over the POSIX \<^verbatim>\<open>node:path\<close>)\<close>

text \<open>
  \<^verbatim>\<open>node:path\<close> is a library of the platform, not code of the repository. Its POSIX
  functions are modelled on their documented behaviour: \<^verbatim>\<open>path.isAbsolute\<close> tests for a
  leading slash; \<^verbatim>\<open>path.resolve\<close> prepends its arguments from right to left until the
  path is absolute (falling back on the working directory \<open>cwd\<close>), then drops empty and
  \<^verbatim>\<open>.\<close> segments and lets each \<^verbatim>\<open>..\<close> remove the segment before it;
  \<^verbatim>\<open>path.relative\<close> resolves both paths, drops their common leading segments and
  answers one \<^verbatim>\<open>..\<close> for each segment left of the first path, followed by the segments
  left of the second. A path is a \<open>string\<close>.
\<close>

definition startsWith :: "string \<Rightarrow> string \<Rightarrow> bool" where
  "startsWith s p = (take (length p) s = p)"

definition endsWith :: "string \<Rightarrow> string \<Rightarrow> bool" where
  "endsWith s p = (length p \<le> length s \<and> drop (length s - length p) s = p)"

definition isAbsolute :: "string \<Rightarrow> bool" where
  "isAbsolute p = (case p of [] \<Rightarrow> False | c # _ \<Rightarrow> c = CHR ''/'')"

fun split_slash :: "string \<Rightarrow> string list" where
  "split_slash [] = ['''']"
| "split_slash (c # cs) =
     (if c = CHR ''/'' then [] # split_slash cs
      else (case split_slash cs of [] \<Rightarrow> [c # []] | s # ss \<Rightarrow> (c # s) # ss))"

fun join_slash :: "string list \<Rightarrow> string" where
  "join_slash [] = []"
| "join_slash [s] = s"
| "join_slash (s # t # ss) = s @ ''/'' @ join_slash (t # ss)"

text \<open>
  \<open>normalizeString allowAboveRoot acc segs\<close> walks the segments with the kept ones on the
  stack \<open>acc\<close> (last kept segment first).
\<close>

fun normalizeString :: "bool \<Rightarrow> string list \<Rightarrow> string list \<Rightarrow> string list" where
  "normalizeString allowAboveRoot acc [] = rev acc"
| "normalizeString allowAboveRoot acc (s # ss) =
     (if s = [] \<or> s = ''.'' then normalizeString allowAboveRoot acc ss
      else if s = ''..'' then
        (case acc of
           [] \<Rightarrow> normalizeString allowAboveRoot (if allowAboveRoot then [''..''] else []) ss
         | t # ts \<Rightarrow>
             if t \<noteq> ''..'' then normalizeString allowAboveRoot ts ss
             else normalizeString allowAboveRoot
                    (if allowAboveRoot then ''..'' # acc else acc) ss)
      else normalizeString allowAboveRoot (s # acc) ss)"

text \<open>
  \<open>resolve_prepend ps acc\<close>: the loop of \<^verbatim>\<open>path.resolve\<close>, over its arguments from the
  last one to the first with the working directory after them; it stops at the first
  absolute one.
\<close>

fun resolve_prepend :: "string list \<Rightarrow> string \<Rightarrow> string \<times> bool" where
  "resolve_prepend [] acc = (acc, False)"
| "resolve_prepend (p # ps) acc =
     (if p = [] then resolve_prepend ps acc
      else if isAbsolute p then (p @ ''/'' @ acc, True)
      else resolve_prepend ps (p @ ''/'' @ acc))"

definition resolve :: "string \<Rightarrow> string list \<Rightarrow> string" where
  "resolve cwd paths =
     (case resolve_prepend (rev paths @ [cwd]) [] of
        (resolvedPath, resolvedAbsolute) \<Rightarrow>
          (let normalized =
                 join_slash (normalizeString (\<not> resolvedAbsolute) [] (split_slash resolvedPath))
           in if resolvedAbsolute then ''/'' @ normalized
              else if normalized \<noteq> [] then normalized else ''.''))"

definition segments :: "string \<Rightarrow> string list" where
  "segments p = filter (\<lambda>s. s \<noteq> []) (split_slash p)"

fun drop_common :: "string list \<Rightarrow> string list \<Rightarrow> string list \<times> string list" where
  "drop_common (x # xs) (y # ys) =
     (if x = y then drop_common xs ys else (x # xs, y # ys))"
| "drop_common xs ys = (xs, ys)"

definition relative :: "string \<Rightarrow> string \<Rightarrow> string \<Rightarrow> string" where
  "relative cwd from to =
     (if from = to then []
      else
        (let from' = resolve cwd [from]; to' = resolve cwd [to]
         in if from' = to' then []
            else (case drop_common (segments from') (segments to') of
                    (up, down) \<Rightarrow> join_slash (map (\<lambda>_. ''..'') up @ down))))"

text \<open>
  \<^verbatim>\<open>toAbsolutePath(workspaceRoot, inputPath)\<close> of \<^verbatim>\<open>util/path.ts\<close>; the
  \<^verbatim>\<open>throw\<close> is the \<open>Inl\<close> branch.
\<close>

definition toAbsolutePath :: "string \<Rightarrow> string \<Rightarrow> string \<Rightarrow> error + string" where
  "toAbsolutePath cwd workspaceRoot inputPath =
     (let normalizedRoot = resolve cwd [workspaceRoot];
          candidate = (if isAbsolute inputPath then resolve cwd [inputPath]
                       else resolve cwd [normalizedRoot, inputPath]);
          rel = relative cwd normalizedRoot candidate
      in if startsWith rel ''..'' \<or> isAbsolute rel
         then Inl (PathEscape candidate normalizedRoot)
         else Inr candidate)"

text \<open>
  A resolved path lies within a resolved root when the root's segments are the leading
  segments of the path's.
\<close>

definition within_root :: "string \<Rightarrow> string \<Rightarrow> bool" where
  "within_root root p = prefix (segments root) (segments p)"

section \<open>Locations (\<^verbatim>\<open>normalizeLocations\<close>)\<close>

record Position =
  line :: nat
  character :: nat

record Range =
  range_start :: Position
  range_end :: Position

record Location =
  loc_uri :: string
  loc_range :: Range

record LocationLink =
  originSelectionRange :: "Range option"
  targetUri :: string
  targetRange :: Range
  targetSelectionRange :: "Range option"

text \<open>
  An entry of a list answer is a \<^verbatim>\<open>Location\<close> or a \<^verbatim>\<open>LocationLink\<close>; the answer
  to a definition request is \<^verbatim>\<open>null\<close> (or absent), one location, or a list.
\<close>

datatype location_entry = Loc Location | Link LocationLink

datatype definition_answer = NoAnswer | OneLocation Location | Entries "location_entry list"

fun isLocationLink :: "location_entry \<Rightarrow> bool" where
  "isLocationLink (Link _) = True"
| "isLocationLink (Loc _) = False"

definition normalizeEntry :: "location_entry \<Rightarrow> Location" where
  "normalizeEntry entry =
     (case entry of
        Link l \<Rightarrow>
          \<lparr>loc_uri = targetUri l,
           loc_range = (case targetSelectionRange l of Some r \<Rightarrow> r | None \<Rightarrow> targetRange l)\<rparr>
      | Loc l \<Rightarrow> l)"

fun normalizeLocations :: "definition_answer \<Rightarrow> Location list" where
  "normalizeLocations NoAnswer = []"
| "normalizeLocations (Entries input) = map normalizeEntry input"
| "normalizeLocations (OneLocation input) = [input]"

section \<open>The client and the process around it\<close>

text \<open>
  The host of the client: the working directory of the process and
  \<^verbatim>\<open>pathToFileURL\<close> of \<^verbatim>\<open>node:url\<close>, a library function taken as a parameter.
\<close>

record host =
  cwd :: string
  pathToFileURL :: "string \<Rightarrow> string"

definition toFileUri :: "host \<Rightarrow> string \<Rightarrow> string" where
  "toFileUri h absolutePath = pathToFileURL h absolutePath"

record TypeScriptLspClientOptions =
  workspacePath :: string
  tsgoPath :: "string option"
  tsgoArgs :: "string list option"
  initializationTimeoutMs :: "nat option"
  diagnosticsTimeoutMs :: "nat option"

record DocumentState =
  doc_uri :: string
  doc_path :: string
  doc_version :: nat
  doc_text :: string

record Diagnostic =
  diag_range :: Range
  diag_severity :: "nat option"
  diag_message :: string

record PublishDiagnosticsParams =
  pd_uri :: string
  pd_diagnostics :: "Diagnostic list"

record InitializeResult =
  capabilities :: string

definition DEFAULT_INITIALIZATION_TIMEOUT_MS :: nat where
  "DEFAULT_INITIALIZATION_TIMEOUT_MS = 10000"

definition DEFAULT_DIAGNOSTICS_TIMEOUT_MS :: nat where
  "DEFAULT_DIAGNOSTICS_TIMEOUT_MS = 1500"

text \<open>What the client writes to a connection: requests and notifications.\<close>

datatype message =
    InitializeRequest string string
  | InitializedNotification
  | DidOpenTextDocument string string nat string
  | DidChangeTextDocument string nat string
  | HoverRequest string Position
  | DefinitionRequest string Position
  | ReferencesRequest string Position bool
  | DocumentSymbolRequest string
  | ShutdownRequest
  | ExitNotification

datatype LogLevel = Debug | Info | Warn | Error

record spawn_call =
  spawn_command :: string
  spawn_args :: "string list"
  spawn_cwd :: string
  spawn_env :: "(string \<times> string) list"

text \<open>
  How far an invocation of the asynchronous \<^verbatim>\<open>start()\<close> has got: suspended at
  \<^verbatim>\<open>await Promise.race(...)\<close>, suspended at \<^verbatim>\<open>await connection.sendNotification(...)\<close>
  with the raced result in hand, returned, or thrown. The promise the invocation returned
  is pending in the first two states, fulfilled in the third and rejected in the fourth.
\<close>

datatype start_state =
    Racing
  | Acknowledging InitializeResult
  | Returned InitializeResult
  | Threw error

datatype 'a settled = Pending | Fulfilled 'a | Rejected error

text \<open>
  How far a call of the asynchronous \<^verbatim>\<open>shutdown()\<close> that passed its guard has got:
  suspended at \<^verbatim>\<open>await this.connection.sendRequest(...)\<close>, suspended at
  \<^verbatim>\<open>await this.connection.sendNotification(...)\<close>, returned, or thrown.
\<close>

datatype shutdown_state =
    AwaitingShutdown
  | AwaitingExit
  | ShutdownReturned
  | ShutdownThrew error

datatype timer = InitTimer nat | DiagTimer nat

text \<open>
  A waiter is the promise built by \<^verbatim>\<open>getDiagnostics\<close>: the uri its closures captured
  and the value it has been resolved with, if any.
\<close>

record waiter =
  waiter_uri :: string
  waiter_value :: "PublishDiagnosticsParams option"

text \<open>
  The state. The first group is the fields of \<^verbatim>\<open>TypeScriptLspClient\<close>
  (\<open>diagnosticsEvents\<close> is the event emitter: its once-listeners as pairs of event
  name and waiter, in the order of registration). The second group is the process around
  the client: one entry of \<open>starts\<close> per invocation of \<^verbatim>\<open>start()\<close> (the subprocess
  it spawned and the invocation's state; invocation \<open>k\<close> owns child \<open>k\<close>,
  connection \<open>k\<close>, timer \<open>InitTimer k\<close> and returns promise \<open>k\<close>), the children
  whose once-listener for \<^verbatim>\<open>error\<close> is still registered, the pending timers with their
  delays, the messages written to each connection, the disposed connections, the killed
  children, the waiters (waiter \<open>k\<close> owns timer \<open>DiagTimer k\<close>), the waiters whose
  handler has been called, one entry of \<open>shutdowns\<close> per call of \<^verbatim>\<open>shutdown()\<close> that
  passed its guard, and the log.
\<close>

record world =
  options :: TypeScriptLspClientOptions
  workspaceRoot :: string
  initializationTimeout :: nat
  diagnosticsTimeout :: nat
  child :: "nat option"
  connection :: "nat option"
  initializePromise :: "nat option"
  shuttingDown :: bool
  openDocuments :: "string \<rightharpoonup> DocumentState"
  diagnostics :: "string \<rightharpoonup> PublishDiagnosticsParams"
  diagnosticsEvents :: "(string \<times> nat) list"
  starts :: "(spawn_call \<times> start_state) list"
  errorListeners :: "nat list"
  timers :: "(timer \<times> nat) list"
  sent :: "(nat \<times> message) list"
  disposed :: "nat list"
  killed :: "nat list"
  waiters :: "waiter list"
  handlerCalls :: "nat list"
  shutdowns :: "shutdown_state list"
  logs :: "(LogLevel \<times> string) list"

text \<open>The constructor.\<close>

definition new_client :: "host \<Rightarrow> TypeScriptLspClientOptions \<Rightarrow> world" where
  "new_client h opts =
     \<lparr>options = opts,
      workspaceRoot = resolve (cwd h) [workspacePath opts],
      initializationTimeout =
        (case initializationTimeoutMs opts of
           Some t \<Rightarrow> t | None \<Rightarrow> DEFAULT_INITIALIZATION_TIMEOUT_MS),
      diagnosticsTimeout =
        (case diagnosticsTimeoutMs opts of
           Some t \<Rightarrow> t | None \<Rightarrow> DEFAULT_DIAGNOSTICS_TIMEOUT_MS),
      child = None,
      connection = None,
      initializePromise = None,
      shuttingDown = False,
      openDocuments = Map.empty,
      diagnostics = Map.empty,
      diagnosticsEvents = [],
      starts = [],
      errorListeners = [],
      timers = [],
      sent = [],
      disposed = [],
      killed = [],
      waiters = [],
      handlerCalls = [],
      shutdowns = [],
      logs = []\<rparr>"

definition log :: "LogLevel \<Rightarrow> string \<Rightarrow> world \<Rightarrow> world" where
  "log level msg w = w\<lparr>logs := logs w @ [(level, msg)]\<rparr>"

definition clearTimeout :: "timer \<Rightarrow> world \<Rightarrow> world" where
  "clearTimeout t w = w\<lparr>timers := filter (\<lambda>(t', _). t' \<noteq> t) (timers w)\<rparr>"

definition pending_timer :: "world \<Rightarrow> timer \<Rightarrow> bool" where
  "pending_timer w t = (t \<in> fst ` set (timers w))"

subsection \<open>The handshake: \<^verbatim>\<open>initialize\<close> and \<^verbatim>\<open>start\<close>\<close>

text \<open>
  \<open>start\<close> is the part of \<^verbatim>\<open>start()\<close> that runs at the call, up to
  \<^verbatim>\<open>await Promise.race(...)\<close>: it spawns the subprocess, stores child and connection,
  registers the listeners, writes the initialize request and sets the timer. It answers
  the promise of the invocation. \<^verbatim>\<open>spawn\<close> is taken to return a handle; a failure to
  launch arrives later as the child's \<^verbatim>\<open>error\<close> event.
\<close>

definition start :: "host \<Rightarrow> world \<Rightarrow> nat \<times> world" where
  "start h w =
     (let command = (case tsgoPath (options w) of Some p \<Rightarrow> p | None \<Rightarrow> ''tsgo'');
          args = [''--lsp'', ''--stdio'']
                   @ (case tsgoArgs (options w) of Some a \<Rightarrow> a | None \<Rightarrow> []);
          k = length (starts w);
          call = \<lparr>spawn_command = command, spawn_args = args,
                  spawn_cwd = workspaceRoot w,
                  spawn_env = [(''TSC_COMPILE_ON_ERROR'', ''true'')]\<rparr>
      in (k, w\<lparr>logs := logs w @ [(Info, ''Starting tsgo language server'')],
                starts := starts w @ [(call, Racing)],
                child := Some k,
                connection := Some k,
                errorListeners := errorListeners w @ [k],
                sent := sent w @ [(k, InitializeRequest (toFileUri h (workspaceRoot w))
                                        (workspaceRoot w))],
                timers := timers w @ [(InitTimer k, initializationTimeout w)]\<rparr>))"

definition initialize :: "host \<Rightarrow> world \<Rightarrow> nat \<times> world" where
  "initialize h w =
     (case initializePromise w of
        Some p \<Rightarrow> (p, w)
      | None \<Rightarrow> (case start h w of (p, w') \<Rightarrow> (p, w'\<lparr>initializePromise := Some p\<rparr>)))"

definition start_state_of :: "world \<Rightarrow> nat \<Rightarrow> start_state option" where
  "start_state_of w k = (if k < length (starts w) then Some (snd (starts w ! k)) else None)"

definition set_start_state :: "nat \<Rightarrow> start_state \<Rightarrow> world \<Rightarrow> world" where
  "set_start_state k s w = w\<lparr>starts := (starts w)[k := (fst (starts w ! k), s)]\<rparr>"

text \<open>The state of the promise that invocation \<open>p\<close> of \<^verbatim>\<open>start()\<close> returned.\<close>

definition promise_state :: "world \<Rightarrow> nat \<Rightarrow> InitializeResult settled" where
  "promise_state w p =
     (case start_state_of w p of
        Some (Returned r) \<Rightarrow> Fulfilled r
      | Some (Threw e) \<Rightarrow> Rejected e
      | _ \<Rightarrow> Pending)"

text \<open>
  The three promises raced by invocation \<open>k\<close>, and a fourth way for the race to settle:
  the initialize request itself may reject. Each of these runs when its event arrives;
  only the first to arrive while the invocation is \<open>Racing\<close> settles the race.
  \<^item> \<open>initializeResponse\<close>: the request resolves; the invocation goes on after the
    \<^verbatim>\<open>await\<close>: it clears the timer and writes the initialized notification.
  \<^item> \<open>initializeRejected\<close>: the request rejects; the \<^verbatim>\<open>await\<close> throws.
  \<^item> \<open>initTimerFires\<close>: the callback of \<^verbatim>\<open>setTimeout\<close>; the \<^verbatim>\<open>await\<close> throws.
  \<^item> \<open>childError\<close>: the once-listener of the child's \<^verbatim>\<open>error\<close> event logs and
    rejects; the \<^verbatim>\<open>await\<close> throws.
  Where the \<^verbatim>\<open>await\<close> throws, the rest of \<^verbatim>\<open>start()\<close> does not run.
\<close>

definition initializeResponse :: "nat \<Rightarrow> InitializeResult \<Rightarrow> world \<Rightarrow> world" where
  "initializeResponse k r w =
     (if start_state_of w k = Some Racing
      then set_start_state k (Acknowledging r)
             ((clearTimeout (InitTimer k) w)\<lparr>sent := sent w @ [(k, InitializedNotification)]\<rparr>)
      else w)"

definition initializeRejected :: "nat \<Rightarrow> string \<Rightarrow> world \<Rightarrow> world" where
  "initializeRejected k m w =
     (if start_state_of w k = Some Racing
      then set_start_state k (Threw (RequestFailed m)) w
      else w)"

definition initTimerFires :: "nat \<Rightarrow> world \<Rightarrow> world" where
  "initTimerFires k w =
     (if pending_timer w (InitTimer k)
      then (let w' = clearTimeout (InitTimer k) w
            in if start_state_of w' k = Some Racing
               then set_start_state k (Threw (InitializeTimeout (initializationTimeout w'))) w'
               else w')
      else w)"

definition childError :: "nat \<Rightarrow> string \<Rightarrow> world \<Rightarrow> world" where
  "childError k m w =
     (if k \<in> set (errorListeners w)
      then (let w' = log Error ''Failed to start tsgo process''
                       (w\<lparr>errorListeners := removeAll k (errorListeners w)\<rparr>)
            in if start_state_of w' k = Some Racing
               then set_start_state k (Threw (SpawnError m)) w'
               else w')
      else w)"

text \<open>
  \<open>initializedSettled k ok\<close>: the promise of the initialized notification settles and
  the invocation goes on after its \<^verbatim>\<open>await\<close>: it logs and returns the result, or throws.
\<close>

definition initializedSettled :: "nat \<Rightarrow> bool \<Rightarrow> world \<Rightarrow> world" where
  "initializedSettled k ok w =
     (case start_state_of w k of
        Some (Acknowledging r) \<Rightarrow>
          if ok then set_start_state k (Returned r)
                       (log Info ''tsgo language server initialized'' w)
          else set_start_state k (Threw (RequestFailed ''initialized'')) w
      | _ \<Rightarrow> w)"

text \<open>The listeners of the child's exit and of the connection's error and close: they log.\<close>

definition childExit :: "nat \<Rightarrow> world \<Rightarrow> world" where
  "childExit k w =
     (if k < length (starts w) \<and> \<not> shuttingDown w
      then log Error ''tsgo process exited unexpectedly'' w
      else w)"

definition connectionError :: "nat \<Rightarrow> world \<Rightarrow> world" where
  "connectionError k w =
     (if k < length (starts w) \<and> k \<notin> set (disposed w)
      then log Error ''LSP connection error'' w
      else w)"

definition connectionClose :: "nat \<Rightarrow> world \<Rightarrow> world" where
  "connectionClose k w =
     (if k < length (starts w) \<and> k \<notin> set (disposed w)
      then log Warn ''LSP connection closed'' w
      else w)"

subsection \<open>Document synchronization: \<^verbatim>\<open>ensureDocument\<close>\<close>

definition assertConnection :: "world \<Rightarrow> error + nat" where
  "assertConnection w =
     (case connection w of None \<Rightarrow> Inl ConnectionNotInitialized | Some c \<Rightarrow> Inr c)"

definition sendOn :: "nat \<Rightarrow> message \<Rightarrow> world \<Rightarrow> world" where
  "sendOn c m w = w\<lparr>sent := sent w @ [(c, m)]\<rparr>"

definition resolveLanguageId :: "string \<Rightarrow> string" where
  "resolveLanguageId absolutePath =
     (if endsWith absolutePath ''.tsx'' then ''typescriptreact''
      else if endsWith absolutePath ''.jsx'' then ''javascriptreact''
      else if endsWith absolutePath ''.js'' \<or> endsWith absolutePath ''.cjs''
              \<or> endsWith absolutePath ''.mjs'' then ''javascript''
      else if endsWith absolutePath ''.cts'' \<or> endsWith absolutePath ''.mts''
              \<or> endsWith absolutePath ''.d.cts'' \<or> endsWith absolutePath ''.d.mts''
           then ''typescript''
      else ''typescript'')"

text \<open>
  \<open>ensureDocument h disk filePath w\<close>. The disk is the content of each readable file at
  the time of the call (\<^verbatim>\<open>fs.readFile\<close> rejects elsewhere). The method suspends once,
  at \<^verbatim>\<open>await fs.readFile\<close>; what runs before it reads only \<open>workspaceRoot\<close>, which
  never changes, and what runs after it runs in one piece, so the method is one step on
  the state at the time the read completes. It answers the document state and the
  identifier (the uri). The document state of the source is one object shared with the
  map; the answer is its value after the call.
\<close>

definition ensureDocument ::
  "host \<Rightarrow> (string \<rightharpoonup> string) \<Rightarrow> string \<Rightarrow> world
     \<Rightarrow> (error + DocumentState \<times> string) \<times> world" where
  "ensureDocument h disk filePath w =
     (case toAbsolutePath (cwd h) (workspaceRoot w) filePath of
        Inl e \<Rightarrow> (Inl e, w)
      | Inr absolutePath \<Rightarrow>
          (let uri = toFileUri h absolutePath in
           case disk absolutePath of
             None \<Rightarrow> (Inl (ReadError absolutePath), w)
           | Some text \<Rightarrow>
               (case openDocuments w uri of
                  None \<Rightarrow>
                    (case assertConnection w of
                       Inl e \<Rightarrow> (Inl e, w)
                     | Inr c \<Rightarrow>
                         (let state = \<lparr>doc_uri = uri, doc_path = absolutePath,
                                       doc_version = 1, doc_text = text\<rparr>
                          in (Inr (state, uri),
                              (sendOn c (DidOpenTextDocument uri
                                           (resolveLanguageId absolutePath) 1 text) w)
                                \<lparr>openDocuments := (openDocuments w)(uri \<mapsto> state)\<rparr>)))
                | Some existing \<Rightarrow>
                    if doc_text existing \<noteq> text then
                      (case assertConnection w of
                         Inl e \<Rightarrow> (Inl e, w)
                       | Inr c \<Rightarrow>
                           (let nextVersion = doc_version existing + 1;
                                existing' = existing\<lparr>doc_text := text,
                                                      doc_version := nextVersion\<rparr>
                            in (Inr (existing', uri),
                                (sendOn c (DidChangeTextDocument uri nextVersion text) w)
                                  \<lparr>openDocuments := (openDocuments w)(uri \<mapsto> existing')\<rparr>)))
                    else (Inr (existing, uri), w))))"

subsection \<open>Diagnostics: the cache and the waiters\<close>

definition resolve_waiter :: "nat \<Rightarrow> PublishDiagnosticsParams \<Rightarrow> world \<Rightarrow> world" where
  "resolve_waiter k v w =
     (if k < length (waiters w) \<and> waiter_value (waiters w ! k) = None
      then w\<lparr>waiters := (waiters w)[k := (waiters w ! k)\<lparr>waiter_value := Some v\<rparr>]\<rparr>
      else w)"

text \<open>
  The \<^verbatim>\<open>handler\<close> closure of waiter \<open>k\<close>: \<^verbatim>\<open>clearTimeout(timer); resolve(params)\<close>.
\<close>

definition handler :: "nat \<Rightarrow> PublishDiagnosticsParams \<Rightarrow> world \<Rightarrow> world" where
  "handler k params w =
     resolve_waiter k params
       (clearTimeout (DiagTimer k) (w\<lparr>handlerCalls := handlerCalls w @ [k]\<rparr>))"

text \<open>
  \<^verbatim>\<open>diagnosticsEvents.emit(uri, params)\<close>: the listeners registered for the event name
  are called in the order of their registration; each is a once-listener, which
  unregisters itself and then calls its handler.
\<close>

fun call_listeners :: "nat list \<Rightarrow> string \<Rightarrow> PublishDiagnosticsParams \<Rightarrow> world \<Rightarrow> world" where
  "call_listeners [] uri params w = w"
| "call_listeners (k # ks) uri params w =
     call_listeners ks uri params
       (handler k params
          (w\<lparr>diagnosticsEvents := remove1 (uri, k) (diagnosticsEvents w)\<rparr>))"

definition emit :: "string \<Rightarrow> PublishDiagnosticsParams \<Rightarrow> world \<Rightarrow> world" where
  "emit uri params w =
     call_listeners (map snd (filter (\<lambda>(u, _). u = uri) (diagnosticsEvents w))) uri params w"

definition handleDiagnostics :: "PublishDiagnosticsParams \<Rightarrow> world \<Rightarrow> world" where
  "handleDiagnostics params w =
     emit (pd_uri params) params
       (w\<lparr>diagnostics := (diagnostics w)(pd_uri params \<mapsto> params)\<rparr>)"

text \<open>
  A publish-diagnostics notification read from connection \<open>c\<close> reaches
  \<open>handleDiagnostics\<close> through the handler that \<^verbatim>\<open>start()\<close> registered on that
  connection, as long as the connection is not disposed.
\<close>

definition publishDiagnostics :: "nat \<Rightarrow> PublishDiagnosticsParams \<Rightarrow> world \<Rightarrow> world" where
  "publishDiagnostics c params w =
     (if c < length (starts w) \<and> c \<notin> set (disposed w) then handleDiagnostics params w else w)"

text \<open>
  \<^verbatim>\<open>diagnosticsEvents.off(uri, handler)\<close> removes the listener registered last for that
  name and handler.
\<close>

definition off :: "string \<Rightarrow> nat \<Rightarrow> world \<Rightarrow> world" where
  "off uri k w = w\<lparr>diagnosticsEvents := rev (remove1 (uri, k) (rev (diagnosticsEvents w)))\<rparr>"

text \<open>
  The callback of the timer of waiter \<open>k\<close>:
  \<^verbatim>\<open>this.diagnosticsEvents.off(uri, handler); resolve({ uri, diagnostics: [] })\<close>.
  A timer fires only while it is pending, and is no longer pending afterwards.
\<close>

definition diagTimerFires :: "nat \<Rightarrow> world \<Rightarrow> world" where
  "diagTimerFires k w =
     (if pending_timer w (DiagTimer k) \<and> k < length (waiters w)
      then (let uri = waiter_uri (waiters w ! k)
            in resolve_waiter k \<lparr>pd_uri = uri, pd_diagnostics = []\<rparr>
                 (off uri k (clearTimeout (DiagTimer k) w)))
      else w)"

subsection \<open>The operations\<close>

text \<open>
  What a call of an asynchronous method has come to: it threw (its promise rejects), it
  returned, or it is suspended: at \<^verbatim>\<open>await this.initialize()\<close> on a pending promise, at
  the \<^verbatim>\<open>await\<close> of the response to a request it wrote to a connection, or at the promise
  of a waiter.
\<close>

datatype 'a outcome =
    Throws error
  | Returns 'a
  | AwaitsInitialize nat
  | AwaitsResponse nat message
  | AwaitsDiagnostics nat

text \<open>
  Each of the five operations is modelled from its call to its last suspension: it calls
  \<open>initialize\<close>; on a pending promise it stays suspended (the call is then resumed by
  evaluating the operation again once the promise has settled, \<open>initialize\<close> answering
  the memoized promise); on a rejected promise it throws the promise's error; on a
  fulfilled promise it synchronizes the document and writes its request. The suspensions
  at \<^verbatim>\<open>await fs.readFile\<close> and at \<^verbatim>\<open>await this.ensureDocument\<close> are passed in one step:
  the operation is evaluated on the state at the time the read completes.
\<close>

definition request_after_sync ::
  "host \<Rightarrow> (string \<rightharpoonup> string) \<Rightarrow> string \<Rightarrow> (string \<Rightarrow> message) \<Rightarrow> world
     \<Rightarrow> 'a outcome \<times> world" where
  "request_after_sync h disk filePath request w =
     (case initialize h w of
        (p, w1) \<Rightarrow>
          (case promise_state w1 p of
             Pending \<Rightarrow> (AwaitsInitialize p, w1)
           | Rejected e \<Rightarrow> (Throws e, w1)
           | Fulfilled _ \<Rightarrow>
               (case ensureDocument h disk filePath w1 of
                  (Inl e, w2) \<Rightarrow> (Throws e, w2)
                | (Inr (_, identifier), w2) \<Rightarrow>
                    (case assertConnection w2 of
                       Inl e \<Rightarrow> (Throws e, w2)
                     | Inr c \<Rightarrow>
                         (AwaitsResponse c (request identifier),
                          sendOn c (request identifier) w2)))))"

definition getHover ::
  "host \<Rightarrow> (string \<rightharpoonup> string) \<Rightarrow> string \<Rightarrow> Position \<Rightarrow> world
     \<Rightarrow> string option outcome \<times> world" where
  "getHover h disk filePath position w =
     request_after_sync h disk filePath (\<lambda>identifier. HoverRequest identifier position) w"

definition getDefinition ::
  "host \<Rightarrow> (string \<rightharpoonup> string) \<Rightarrow> string \<Rightarrow> Position \<Rightarrow> world
     \<Rightarrow> Location list outcome \<times> world" where
  "getDefinition h disk filePath position w =
     request_after_sync h disk filePath (\<lambda>identifier. DefinitionRequest identifier position) w"

definition findReferences ::
  "host \<Rightarrow> (string \<rightharpoonup> string) \<Rightarrow> string \<Rightarrow> Position \<Rightarrow> bool \<Rightarrow> world
     \<Rightarrow> Location list outcome \<times> world" where
  "findReferences h disk filePath position includeDeclaration w =
     request_after_sync h disk filePath
       (\<lambda>identifier. ReferencesRequest identifier position includeDeclaration) w"

definition documentSymbols ::
  "host \<Rightarrow> (string \<rightharpoonup> string) \<Rightarrow> string \<Rightarrow> world \<Rightarrow> string list outcome \<times> world" where
  "documentSymbols h disk filePath w =
     request_after_sync h disk filePath (\<lambda>identifier. DocumentSymbolRequest identifier) w"

text \<open>
  What each operation returns once the response to its request has arrived (hover
  contents and symbols are opaque here, a \<open>string\<close> each).
\<close>

definition getHover_return :: "string option \<Rightarrow> string option" where
  "getHover_return response = (case response of Some hover \<Rightarrow> Some hover | None \<Rightarrow> None)"

definition getDefinition_return :: "definition_answer \<Rightarrow> Location list" where
  "getDefinition_return result = normalizeLocations result"

definition findReferences_return :: "Location list option \<Rightarrow> Location list" where
  "findReferences_return result = (case result of Some ls \<Rightarrow> ls | None \<Rightarrow> [])"

definition documentSymbols_return :: "string list option \<Rightarrow> string list" where
  "documentSymbols_return result = (case result of Some ss \<Rightarrow> ss | None \<Rightarrow> [])"

text \<open>
  \<open>new_waiter uri w\<close> is the \<^verbatim>\<open>new Promise(...)\<close> of \<^verbatim>\<open>getDiagnostics\<close>: it builds a
  waiter, the promise with its timer and its once-listener, registered in that order, and
  answers the waiter.
\<close>

definition new_waiter :: "string \<Rightarrow> world \<Rightarrow> nat \<times> world" where
  "new_waiter uri w =
     (let k = length (waiters w)
      in (k, w\<lparr>waiters := waiters w @ [\<lparr>waiter_uri = uri, waiter_value = None\<rparr>],
                timers := timers w @ [(DiagTimer k, diagnosticsTimeout w)],
                diagnosticsEvents := diagnosticsEvents w @ [(uri, k)]\<rparr>))"

text \<open>\<open>getDiagnostics\<close> answers the cached report, or the promise of a new waiter.\<close>

definition getDiagnostics ::
  "host \<Rightarrow> (string \<rightharpoonup> string) \<Rightarrow> string \<Rightarrow> world
     \<Rightarrow> PublishDiagnosticsParams outcome \<times> world" where
  "getDiagnostics h disk filePath w =
     (case initialize h w of
        (p, w1) \<Rightarrow>
          (case promise_state w1 p of
             Pending \<Rightarrow> (AwaitsInitialize p, w1)
           | Rejected e \<Rightarrow> (Throws e, w1)
           | Fulfilled _ \<Rightarrow>
               (case ensureDocument h disk filePath w1 of
                  (Inl e, w2) \<Rightarrow> (Throws e, w2)
                | (Inr (_, uri), w2) \<Rightarrow>
                    (case diagnostics w2 uri of
                       Some cached \<Rightarrow> (Returns cached, w2)
                     | None \<Rightarrow>
                         (case new_waiter uri w2 of
                            (k, w3) \<Rightarrow> (AwaitsDiagnostics k, w3))))))"

subsection \<open>\<^verbatim>\<open>shutdown\<close>\<close>

text \<open>
  \<open>shutdown\<close> is the part of \<^verbatim>\<open>shutdown()\<close> that runs at the call: the guard, the flag
  and the shutdown request, at whose \<^verbatim>\<open>await\<close> the call is suspended. A call that passes
  the guard is call \<open>j\<close>, the next entry of \<open>shutdowns\<close>.
\<close>

definition shutdown_state_of :: "world \<Rightarrow> nat \<Rightarrow> shutdown_state option" where
  "shutdown_state_of w j = (if j < length (shutdowns w) then Some (shutdowns w ! j) else None)"

definition set_shutdown_state :: "nat \<Rightarrow> shutdown_state \<Rightarrow> world \<Rightarrow> world" where
  "set_shutdown_state j s w = w\<lparr>shutdowns := (shutdowns w)[j := s]\<rparr>"

definition shutdown :: "world \<Rightarrow> unit outcome \<times> world" where
  "shutdown w =
     (case (connection w, child w) of
        (Some c, Some _) \<Rightarrow>
          (AwaitsResponse c ShutdownRequest,
           (sendOn c ShutdownRequest (w\<lparr>shuttingDown := True\<rparr>))
             \<lparr>shutdowns := shutdowns w @ [AwaitingShutdown]\<rparr>)
      | _ \<Rightarrow> (Returns (), w))"

text \<open>
  \<open>shutdown_end j\<close>: what call \<open>j\<close> runs after the \<^verbatim>\<open>try\<close> statement. The method
  calls on \<^verbatim>\<open>this.connection\<close> and \<^verbatim>\<open>this.child\<close> are calls on the fields as they are
  then; on \<^verbatim>\<open>null\<close> they throw.
\<close>

definition shutdown_end :: "nat \<Rightarrow> world \<Rightarrow> world" where
  "shutdown_end j w =
     (case connection w of
        None \<Rightarrow> set_shutdown_state j (ShutdownThrew NullDereference) w
      | Some c \<Rightarrow>
          (let w1 = w\<lparr>disposed := disposed w @ [c], connection := None\<rparr>
           in case child w1 of
                None \<Rightarrow> set_shutdown_state j (ShutdownThrew NullDereference) w1
              | Some ch \<Rightarrow>
                  set_shutdown_state j ShutdownReturned
                    (w1\<lparr>killed := killed w1 @ [ch], child := None\<rparr>)))"

text \<open>
  \<open>shutdownSettled j ok\<close>: the promise of the shutdown request of call \<open>j\<close> settles and
  the call goes on. If the promise resolved, the call writes the exit notification to
  \<^verbatim>\<open>this.connection\<close> (a \<^verbatim>\<open>null\<close> there throws inside the \<^verbatim>\<open>try\<close>) and is suspended
  again; if it rejected, the \<^verbatim>\<open>catch\<close> logs and the call goes to its end.
  \<open>exitSettled j ok\<close>: the promise of the exit notification settles; a rejection is
  caught and logged; the call goes to its end.
\<close>

definition shutdownSettled :: "nat \<Rightarrow> bool \<Rightarrow> world \<Rightarrow> world" where
  "shutdownSettled j ok w =
     (if shutdown_state_of w j = Some AwaitingShutdown
      then if ok
           then (case connection w of
                   None \<Rightarrow> shutdown_end j (log Warn ''Failed to send shutdown request'' w)
                 | Some c \<Rightarrow> set_shutdown_state j AwaitingExit (sendOn c ExitNotification w))
           else shutdown_end j (log Warn ''Failed to send shutdown request'' w)
      else w)"

definition exitSettled :: "nat \<Rightarrow> bool \<Rightarrow> world \<Rightarrow> world" where
  "exitSettled j ok w =
     (if shutdown_state_of w j = Some AwaitingExit
      then shutdown_end j (if ok then w else log Warn ''Failed to send shutdown request'' w)
      else w)"

subsection \<open>Runs\<close>

text \<open>
  The client runs on one thread: between two suspensions a piece of code runs alone. A
  run of the client is a sequence of such pieces, each started by an event: a call of a
  method by some caller, a message or a settled promise from a connection, an event of a
  child, a timer that fires.
\<close>

datatype event =
    CallInitialize
  | InitializeResponse nat InitializeResult
  | InitializeRejected nat string
  | InitializedSettled nat bool
  | ChildError nat string
  | ChildExit nat
  | ConnectionError nat
  | ConnectionClose nat
  | TimerFires timer
  | PublishDiagnostics nat PublishDiagnosticsParams
  | CallGetHover "string \<rightharpoonup> string" string Position
  | CallGetDefinition "string \<rightharpoonup> string" string Position
  | CallFindReferences "string \<rightharpoonup> string" string Position bool
  | CallDocumentSymbols "string \<rightharpoonup> string" string
  | CallGetDiagnostics "string \<rightharpoonup> string" string
  | CallShutdown
  | ShutdownSettled nat bool
  | ExitSettled nat bool

fun step :: "host \<Rightarrow> event \<Rightarrow> world \<Rightarrow> world" where
  "step h CallInitialize w = snd (initialize h w)"
| "step h (InitializeResponse k r) w = initializeResponse k r w"
| "step h (InitializeRejected k m) w = initializeRejected k m w"
| "step h (InitializedSettled k ok) w = initializedSettled k ok w"
| "step h (ChildError k m) w = childError k m w"
| "step h (ChildExit k) w = childExit k w"
| "step h (ConnectionError k) w = connectionError k w"
| "step h (ConnectionClose k) w = connectionClose k w"
| "step h (TimerFires (InitTimer k)) w = initTimerFires k w"
| "step h (TimerFires (DiagTimer k)) w = diagTimerFires k w"
| "step h (PublishDiagnostics c params) w = publishDiagnostics c params w"
| "step h (CallGetHover disk filePath position) w = snd (getHover h disk filePath position w)"
| "step h (CallGetDefinition disk filePath position) w =
     snd (getDefinition h disk filePath position w)"
| "step h (CallFindReferences disk filePath position incl) w =
     snd (findReferences h disk filePath position incl w)"
| "step h (CallDocumentSymbols disk filePath) w = snd (documentSymbols h disk filePath w)"
| "step h (CallGetDiagnostics disk filePath) w = snd (getDiagnostics h disk filePath w)"
| "step h CallShutdown w = snd (shutdown w)"
| "step h (ShutdownSettled j ok) w = shutdownSettled j ok w"
| "step h (ExitSettled j ok) w = exitSettled j ok w"

fun run :: "host \<Rightarrow> event list \<Rightarrow> world \<Rightarrow> world" where
  "run h [] w = w"
| "run h (e # es) w = run h es (step h e w)"

subsection \<open>Observing runs\<close>

text \<open>
  The events in which a caller invokes \<open>initialize\<close>, directly or through one of the
  five operations, and the promise \<open>initialize\<close> answers to each such caller of a run.
\<close>

definition calls_initialize :: "event \<Rightarrow> bool" where
  "calls_initialize e =
     (case e of
        CallInitialize \<Rightarrow> True
      | CallGetHover _ _ _ \<Rightarrow> True
      | CallGetDefinition _ _ _ \<Rightarrow> True
      | CallFindReferences _ _ _ _ \<Rightarrow> True
      | CallDocumentSymbols _ _ \<Rightarrow> True
      | CallGetDiagnostics _ _ \<Rightarrow> True
      | _ \<Rightarrow> False)"

fun initialize_answers :: "host \<Rightarrow> event list \<Rightarrow> world \<Rightarrow> nat list" where
  "initialize_answers h [] w = []"
| "initialize_answers h (e # es) w =
     (if calls_initialize e then [fst (initialize h w)] else [])
       @ initialize_answers h es (step h e w)"

text \<open>The handshake is memoized: no promise and no invocation, or promise 0 and one.\<close>

definition memo_inv :: "world \<Rightarrow> bool" where
  "memo_inv w =
     (case initializePromise w of
        None \<Rightarrow> length (starts w) = 0
      | Some p \<Rightarrow> p = 0 \<and> length (starts w) = 1)"

definition settled_state :: "start_state \<Rightarrow> bool" where
  "settled_state s = (case s of Returned _ \<Rightarrow> True | Threw _ \<Rightarrow> True | _ \<Rightarrow> False)"


fun is_document_notification :: "message \<Rightarrow> bool" where
  "is_document_notification (DidOpenTextDocument _ _ _ _) = True"
| "is_document_notification (DidChangeTextDocument _ _ _) = True"
| "is_document_notification _ = False"

definition document_notifications :: "world \<Rightarrow> message list" where
  "document_notifications w = filter is_document_notification (map snd (sent w))"

definition ready :: "world \<Rightarrow> bool" where
  "ready w =
     (case initializePromise w of
        None \<Rightarrow> False
      | Some p \<Rightarrow> (case promise_state w p of Fulfilled _ \<Rightarrow> True | _ \<Rightarrow> False))"

text \<open>
  The part of the state that the diagnostics waiters live in; the invariant of that part
  (a listener is registered once, for the uri of its waiter, which is unresolved, has its
  timer pending and has not had its handler called; a pending timer of a waiter has its
  listener registered; a handler that has been called belongs to a waiter with no
  listener); a waiter that is waiting for a uri; the events that leave such a waiter
  waiting (any event but its own timer and a report for its uri); a waiter with no
  listener.
\<close>

definition diag_view :: "world \<Rightarrow> waiter list \<times> (string \<times> nat) list \<times> nat list \<times> nat set" where
  "diag_view w =
     (waiters w, diagnosticsEvents w, handlerCalls w, {k. pending_timer w (DiagTimer k)})"

definition diag_inv :: "world \<Rightarrow> bool" where
  "diag_inv w \<longleftrightarrow>
     distinct (map snd (diagnosticsEvents w))
   \<and> (\<forall>(u, k) \<in> set (diagnosticsEvents w).
        k < length (waiters w) \<and> waiter_uri (waiters w ! k) = u
        \<and> waiter_value (waiters w ! k) = None \<and> pending_timer w (DiagTimer k))
   \<and> (\<forall>k. pending_timer w (DiagTimer k) \<longrightarrow>
        k < length (waiters w) \<and> (waiter_uri (waiters w ! k), k) \<in> set (diagnosticsEvents w))
   \<and> (\<forall>k \<in> set (handlerCalls w).
        k < length (waiters w) \<and> k \<notin> snd ` set (diagnosticsEvents w))"

definition waiting :: "world \<Rightarrow> nat \<Rightarrow> string \<Rightarrow> bool" where
  "waiting w k uri \<longleftrightarrow>
     k < length (waiters w) \<and> waiters w ! k = \<lparr>waiter_uri = uri, waiter_value = None\<rparr>
   \<and> pending_timer w (DiagTimer k) \<and> (uri, k) \<in> set (diagnosticsEvents w)"

definition quiet :: "string \<Rightarrow> nat \<Rightarrow> event \<Rightarrow> bool" where
  "quiet uri k e =
     (case e of
        TimerFires t \<Rightarrow> t \<noteq> DiagTimer k
      | PublishDiagnostics _ params \<Rightarrow> pd_uri params \<noteq> uri
      | _ \<Rightarrow> True)"


definition retired :: "world \<Rightarrow> nat \<Rightarrow> bool" where
  "retired w k \<longleftrightarrow> k < length (waiters w) \<and> k \<notin> snd ` set (diagnosticsEvents w)"


text \<open>
  A client that has been shut down after its handshake: the memoized promise is
  fulfilled and the connection is null.
\<close>

definition shut_down :: "world \<Rightarrow> nat \<Rightarrow> InitializeResult \<Rightarrow> bool" where
  "shut_down w p r \<longleftrightarrow>
     initializePromise w = Some p \<and> promise_state w p = Fulfilled r \<and> connection w = None"


text \<open>
  The events of calls of \<^verbatim>\<open>shutdown()\<close>. \<open>shutdown_through h requestOk exitOk es1 es2\<close>
  is one call of \<^verbatim>\<open>shutdown()\<close> from its start to its end: the events \<open>es1\<close> run
  while the call awaits the shutdown request, which settles as \<open>requestOk\<close> says, and
  the events \<open>es2\<close> while it awaits the exit notification, which settles as \<open>exitOk\<close>
  says.
\<close>

definition shutdown_event :: "event \<Rightarrow> bool" where
  "shutdown_event e =
     (case e of
        CallShutdown \<Rightarrow> True
      | ShutdownSettled _ _ \<Rightarrow> True
      | ExitSettled _ _ \<Rightarrow> True
      | _ \<Rightarrow> False)"

definition shutdown_through ::
  "host \<Rightarrow> bool \<Rightarrow> bool \<Rightarrow> event list \<Rightarrow> event list \<Rightarrow> world \<Rightarrow> world" where
  "shutdown_through h requestOk exitOk es1 es2 w =
     exitSettled (length (shutdowns w)) exitOk
       (run h es2
          (shutdownSettled (length (shutdowns w)) requestOk
             (run h es1 (snd (shutdown w)))))"

text \<open>
  What has been written, disposed, killed and logged in one state is so in another; and
  the invariant that connection and child are set only once the handshake is memoized.
\<close>

definition grows :: "world \<Rightarrow> world \<Rightarrow> bool" where
  "grows w w' \<longleftrightarrow>
     set (sent w) \<subseteq> set (sent w') \<and> set (disposed w) \<subseteq> set (disposed w')
   \<and> set (killed w) \<subseteq> set (killed w') \<and> set (logs w) \<subseteq> set (logs w')"




text \<open>A host and options for the concrete runs below.\<close>

definition h0 :: host where
  "h0 = \<lparr>cwd = ''/'', pathToFileURL = (\<lambda>p. ''file://'' @ p)\<rparr>"

definition opts0 :: TypeScriptLspClientOptions where
  "opts0 = \<lparr>workspacePath = ''/ws'', tsgoPath = None, tsgoArgs = None,
            initializationTimeoutMs = None, diagnosticsTimeoutMs = None\<rparr>"

definition result0 :: InitializeResult where
  "result0 = \<lparr>capabilities = ''hover''\<rparr>"


definition disk0 :: "string \<rightharpoonup> string" where
  "disk0 = [''/ws/a.ts'' \<mapsto> ''let x = 1'']"

definition disk1 :: "string \<rightharpoonup> string" where
  "disk1 = [''/ws/a.ts'' \<mapsto> ''let x = 2'']"

definition pos0 :: Position where
  "pos0 = \<lparr>line = 0, character = 4\<rparr>"

definition ready0 :: world where
  "ready0 = run h0 [CallInitialize, InitializeResponse 0 result0, InitializedSettled 0 True]
              (new_client h0 opts0)"

definition opened0 :: world where
  "opened0 = step h0 (CallGetHover disk0 ''a.ts'' pos0) ready0"


definition report0 :: PublishDiagnosticsParams where
  "report0 = \<lparr>pd_uri = ''file:///ws/a.ts'',
              pd_diagnostics = [\<lparr>diag_range = \<lparr>range_start = \<lparr>line = 0, character = 4\<rparr>,
                                               range_end = \<lparr>line = 0, character = 5\<rparr>\<rparr>,
                                 diag_severity = Some 2,
                                 diag_message = ''unused variable''\<rparr>]\<rparr>"


definition waiting0 :: world where
  "waiting0 = step h0 (CallGetDiagnostics disk0 ''a.ts'') ready0"

definition reported0 :: world where
  "reported0 = step h0 (PublishDiagnostics 0 report0) opened0"

definition shut0 :: world where
  "shut0 = run h0 [CallShutdown, ShutdownSettled 0 True, ExitSettled 0 True] reported0"

section \<open>Properties of the handshake\<close>

lemmas handshake_defs =
  initializeResponse_def initializeRejected_def initTimerFires_def childError_def
  initializedSettled_def childExit_def connectionError_def connectionClose_def
  set_start_state_def start_state_of_def clearTimeout_def log_def

lemma starts_ensureDocument [simp]: "starts (snd (ensureDocument h disk f w)) = starts w"
  by (simp add: ensureDocument_def sendOn_def Let_def split: sum.splits option.splits)

lemma initializePromise_ensureDocument [simp]:
  "initializePromise (snd (ensureDocument h disk f w)) = initializePromise w"
  by (simp add: ensureDocument_def sendOn_def Let_def split: sum.splits option.splits)

lemma starts_resolve_waiter [simp]: "starts (resolve_waiter k v w) = starts w"
  by (simp add: resolve_waiter_def)

lemma initializePromise_resolve_waiter [simp]:
  "initializePromise (resolve_waiter k v w) = initializePromise w"
  by (simp add: resolve_waiter_def)

lemma call_listeners_keeps [simp]:
  "starts (call_listeners ks u p w) = starts w"
  "initializePromise (call_listeners ks u p w) = initializePromise w"
  by (induction ks arbitrary: w) (simp_all add: handler_def clearTimeout_def)

lemma starts_initialize:
  "starts (snd (initialize h w)) =
     (case initializePromise w of Some _ \<Rightarrow> starts w 
      | None \<Rightarrow> starts w @ [(\<lparr>spawn_command = (case tsgoPath (options w) of Some p \<Rightarrow> p | None \<Rightarrow> ''tsgo''),
            spawn_args = [''--lsp'', ''--stdio''] @ (case tsgoArgs (options w) of Some a \<Rightarrow> a | None \<Rightarrow> []),
            spawn_cwd = workspaceRoot w, spawn_env = [(''TSC_COMPILE_ON_ERROR'', ''true'')]\<rparr>, Racing)])"
  by (simp add: initialize_def start_def Let_def split: option.splits)

lemma fst_initialize:
  "fst (initialize h w) = (case initializePromise w of Some p \<Rightarrow> p | None \<Rightarrow> length (starts w))"
  by (simp add: initialize_def start_def Let_def split: option.splits)

lemma initializePromise_initialize:
  "initializePromise (snd (initialize h w)) = Some (fst (initialize h w))"
  by (simp add: initialize_def start_def Let_def split: option.splits)

lemma request_after_sync_starts:
  "starts (snd (request_after_sync h disk f rq w :: 'a outcome \<times> world)) = starts (snd (initialize h w))"
  "initializePromise (snd (request_after_sync h disk f rq w :: 'a outcome \<times> world)) = initializePromise (snd (initialize h w))"
  by (auto simp add: request_after_sync_def sendOn_def split_beta split: settled.splits sum.splits)

lemma getDiagnostics_starts:
  "starts (snd (getDiagnostics h disk f w)) = starts (snd (initialize h w))"
  "initializePromise (snd (getDiagnostics h disk f w)) = initializePromise (snd (initialize h w))"
  by (auto simp add: getDiagnostics_def new_waiter_def Let_def split_beta
        split: settled.splits sum.splits option.splits)

lemmas shutdown_defs =
  shutdown_def shutdown_end_def shutdownSettled_def exitSettled_def set_shutdown_state_def
  shutdown_state_of_def sendOn_def log_def

lemma shutdown_starts [simp]:
  "starts (snd (shutdown w)) = starts w"
  "initializePromise (snd (shutdown w)) = initializePromise w"
  "starts (shutdownSettled j ok w) = starts w"
  "initializePromise (shutdownSettled j ok w) = initializePromise w"
  "starts (exitSettled j ok w) = starts w"
  "initializePromise (exitSettled j ok w) = initializePromise w"
  by (auto simp add: shutdown_defs Let_def split: option.splits)


lemma handshake_keeps:
  "length (starts (initializeResponse k r w)) = length (starts w)"
  "initializePromise (initializeResponse k r w) = initializePromise w"
  "length (starts (initializeRejected k m w)) = length (starts w)"
  "initializePromise (initializeRejected k m w) = initializePromise w"
  "length (starts (initializedSettled k ok w)) = length (starts w)"
  "initializePromise (initializedSettled k ok w) = initializePromise w"
  "length (starts (initTimerFires k w)) = length (starts w)"
  "initializePromise (initTimerFires k w) = initializePromise w"
  "length (starts (childError k m w)) = length (starts w)"
  "initializePromise (childError k m w) = initializePromise w"
  "length (starts (childExit k w)) = length (starts w)"
  "initializePromise (childExit k w) = initializePromise w"
  "length (starts (connectionError k w)) = length (starts w)"
  "initializePromise (connectionError k w) = initializePromise w"
  "length (starts (connectionClose k w)) = length (starts w)"
  "initializePromise (connectionClose k w) = initializePromise w"
  by (simp_all add: handshake_defs Let_def split: option.splits start_state.splits)

lemma diagnostics_keeps:
  "starts (diagTimerFires k w) = starts w"
  "initializePromise (diagTimerFires k w) = initializePromise w"
  "starts (publishDiagnostics c p w) = starts w"
  "initializePromise (publishDiagnostics c p w) = initializePromise w"
  by (simp_all add: diagTimerFires_def publishDiagnostics_def handleDiagnostics_def emit_def
        off_def clearTimeout_def Let_def)

lemma step_keeps_call:
  "calls_initialize e \<Longrightarrow>
     length (starts (step h e w)) = length (starts (snd (initialize h w))) \<and>
     initializePromise (step h e w) = initializePromise (snd (initialize h w))"
  by (cases e) (simp_all add: calls_initialize_def
       getHover_def getDefinition_def findReferences_def documentSymbols_def
       request_after_sync_starts getDiagnostics_starts)

lemma timer_keeps:
  "length (starts (step h (TimerFires t) w)) = length (starts w) \<and>
   initializePromise (step h (TimerFires t) w) = initializePromise w"
  by (cases t) (simp_all add: handshake_keeps diagnostics_keeps)

lemma step_keeps_other:
  "\<not> calls_initialize e \<Longrightarrow>
     length (starts (step h e w)) = length (starts w) \<and>
     initializePromise (step h e w) = initializePromise w"
  by (cases e) (simp_all add: calls_initialize_def handshake_keeps diagnostics_keeps timer_keeps)

lemma memo_inv_initialize: "memo_inv w \<Longrightarrow> memo_inv (snd (initialize h w))"
  by (auto simp: memo_inv_def initialize_def start_def Let_def split: option.splits)

lemma memo_inv_step: "memo_inv w \<Longrightarrow> memo_inv (step h e w)"
  using memo_inv_initialize [of w h] step_keeps_call [of e h w] step_keeps_other [of e h w]
  by (cases "calls_initialize e") (auto simp: memo_inv_def split: option.splits)

lemma memo_inv_run: "memo_inv w \<Longrightarrow> memo_inv (run h es w)"
  by (induction es arbitrary: w) (simp_all add: memo_inv_step)

lemma memo_inv_new: "memo_inv (new_client h opts)"
  by (simp add: memo_inv_def new_client_def)


lemma initializePromise_step_None:
  "initializePromise (step h e w) = None \<longleftrightarrow> initializePromise w = None \<and> \<not> calls_initialize e"
  using step_keeps_call [of e h w] step_keeps_other [of e h w]
  by (cases "calls_initialize e") (simp_all add: initializePromise_initialize)

lemma initializePromise_run_None:
  "initializePromise (run h es w) = None \<longleftrightarrow>
     initializePromise w = None \<and> \<not> (\<exists>e\<in>set es. calls_initialize e)"
  by (induction es arbitrary: w) (auto simp: initializePromise_step_None)

lemma memo_inv_length:
  "memo_inv w \<Longrightarrow> length (starts w) = (if initializePromise w = None then 0 else 1)"
  by (auto simp: memo_inv_def split: option.splits)

lemma memo_inv_answers:
  "memo_inv w \<Longrightarrow> set (initialize_answers h es w) \<subseteq> {0}"
proof (induction es arbitrary: w)
  case Nil
  then show ?case by simp
next
  case (Cons e es)
  have "fst (initialize h w) = 0"
    using Cons.prems by (auto simp: fst_initialize memo_inv_def split: option.splits)
  moreover have "set (initialize_answers h es (step h e w)) \<subseteq> {0}"
    using Cons.IH Cons.prems by (simp add: memo_inv_step)
  ultimately show ?case by auto
qed

lemma start_state_initialize:
  "k < length (starts w) \<Longrightarrow> start_state_of (snd (initialize h w)) k = start_state_of w k"
  by (simp add: start_state_of_def starts_initialize nth_append split: option.splits)

lemma start_state_request_after_sync:
  "start_state_of (snd (request_after_sync h disk f rq w :: 'a outcome \<times> world)) k
     = start_state_of (snd (initialize h w)) k"
  by (simp add: start_state_of_def request_after_sync_starts)

lemma start_state_getDiagnostics:
  "start_state_of (snd (getDiagnostics h disk f w)) k = start_state_of (snd (initialize h w)) k"
  by (simp add: start_state_of_def getDiagnostics_starts)

lemma handshake_settled:
  assumes "start_state_of w p = Some s" and "settled_state s"
  shows "start_state_of (initializeResponse k r w) p = Some s"
    and "start_state_of (initializeRejected k m w) p = Some s"
    and "start_state_of (initializedSettled k ok w) p = Some s"
    and "start_state_of (initTimerFires k w) p = Some s"
    and "start_state_of (childError k m w) p = Some s"
    and "start_state_of (childExit k w) p = Some s"
    and "start_state_of (connectionError k w) p = Some s"
    and "start_state_of (connectionClose k w) p = Some s"
  using assms
  by (auto simp: handshake_defs settled_state_def Let_def nth_list_update
        split: option.splits start_state.splits if_splits)

lemma step_settled:
  assumes "start_state_of w p = Some s" and "settled_state s"
  shows "start_state_of (step h e w) p = Some s"
proof -
  have p: "p < length (starts w)"
    using assms(1) by (simp add: start_state_of_def split: if_splits)
  show ?thesis
  proof (cases e)
    case (TimerFires t)
    then show ?thesis
      using assms by (cases t) (simp_all add: handshake_settled, auto simp: start_state_of_def diagnostics_keeps split: if_splits)
  next
    case (PublishDiagnostics c prm)
    then show ?thesis using assms by (auto simp: start_state_of_def diagnostics_keeps split: if_splits)
  next
    case CallShutdown
    then show ?thesis using assms by (auto simp: start_state_of_def split: if_splits)
  next
    case (ShutdownSettled j ok)
    then show ?thesis using assms by (auto simp: start_state_of_def split: if_splits)
  next
    case (ExitSettled j ok)
    then show ?thesis using assms by (auto simp: start_state_of_def split: if_splits)
  qed (use assms p in \<open>simp_all add: handshake_settled start_state_initialize
         getHover_def getDefinition_def findReferences_def documentSymbols_def
         start_state_request_after_sync start_state_getDiagnostics\<close>)
qed

lemma run_settled:
  "start_state_of w p = Some s \<Longrightarrow> settled_state s \<Longrightarrow> start_state_of (run h es w) p = Some s"
  by (induction es arbitrary: w) (simp_all add: step_settled)

lemma promise_settled_run:
  assumes "promise_state w p \<noteq> Pending"
  shows "promise_state (run h es w) p = promise_state w p"
proof -
  obtain s where s: "start_state_of w p = Some s" "settled_state s"
    using assms
    by (auto simp: promise_state_def settled_state_def split: option.splits start_state.splits)
  then show ?thesis
    by (simp add: promise_state_def run_settled)
qed

text \<open>
  C1. From a new client, whatever the run: \<^verbatim>\<open>start()\<close> has been invoked, and the
  subprocess spawned, exactly once if some caller has invoked \<open>initialize\<close> (directly or
  through an operation) and not at all otherwise; every such caller was answered the same
  promise, promise 0; and once that promise is settled, fulfilled or rejected, it keeps
  that outcome through every further run.
\<close>

theorem initialize_spawns_once:
  "length (starts (run h es (new_client h opts)))
     = (if \<exists>e\<in>set es. calls_initialize e then 1 else 0)
   \<and> (\<forall>p\<in>set (initialize_answers h es (new_client h opts)). p = 0)
   \<and> (promise_state (run h es (new_client h opts)) 0 \<noteq> Pending \<longrightarrow>
        promise_state (run h es' (run h es (new_client h opts))) 0
          = promise_state (run h es (new_client h opts)) 0)"
proof -
  let ?w = "run h es (new_client h opts)"
  have inv: "memo_inv ?w"
    by (simp add: memo_inv_new memo_inv_run)
  have "initializePromise ?w = None \<longleftrightarrow> \<not> (\<exists>e\<in>set es. calls_initialize e)"
    by (simp add: initializePromise_run_None new_client_def)
  then have a: "length (starts ?w) = (if \<exists>e\<in>set es. calls_initialize e then 1 else 0)"
    using memo_inv_length [OF inv] by simp
  have b: "\<forall>p\<in>set (initialize_answers h es (new_client h opts)). p = 0"
    using memo_inv_answers [OF memo_inv_new, of h es h opts] by auto
  show ?thesis
    using a b promise_settled_run [of ?w 0 h es'] by blast
qed

theorem initialize_spawns_once_witness:
  "length (starts (run h0 [CallInitialize,
       CallGetHover Map.empty ''a.ts'' \<lparr>line = 0, character = 0\<rparr>, CallInitialize,
       InitializeResponse 0 result0, InitializedSettled 0 True] (new_client h0 opts0))) = 1
   \<and> initialize_answers h0 [CallInitialize,
       CallGetHover Map.empty ''a.ts'' \<lparr>line = 0, character = 0\<rparr>, CallInitialize,
       InitializeResponse 0 result0, InitializedSettled 0 True] (new_client h0 opts0)
       = [0, 0, 0]
   \<and> promise_state (run h0 [TimerFires (InitTimer 0), ChildError 0 ''late'', CallInitialize]
        (run h0 [CallInitialize,
           CallGetHover Map.empty ''a.ts'' \<lparr>line = 0, character = 0\<rparr>, CallInitialize,
           InitializeResponse 0 result0, InitializedSettled 0 True] (new_client h0 opts0))) 0
       = Fulfilled result0"
proof -
  let ?es = "[CallInitialize,
       CallGetHover Map.empty ''a.ts'' \<lparr>line = 0, character = 0\<rparr>, CallInitialize,
       InitializeResponse 0 result0, InitializedSettled 0 True]"
  have settled: "promise_state (run h0 ?es (new_client h0 opts0)) 0 = Fulfilled result0"
    by (simp add: h0_def opts0_def new_client_def initialize_def start_def handshake_defs
          getHover_def request_after_sync_def promise_state_def)
  have called: "\<exists>e\<in>set ?es. calls_initialize e"
    by (simp add: calls_initialize_def)
  have answers: "initialize_answers h0 ?es (new_client h0 opts0) = [0, 0, 0]"
    by (simp add: calls_initialize_def h0_def opts0_def new_client_def initialize_def
          start_def handshake_defs getHover_def request_after_sync_def promise_state_def)
  show ?thesis
    using initialize_spawns_once [of h0 ?es opts0
        "[TimerFires (InitTimer 0), ChildError 0 ''late'', CallInitialize]"]
      settled called answers
    by simp
qed

text \<open>
  C6. The race of the handshake settles once, but only the success path cancels the
  timer: when the child's \<^verbatim>\<open>error\<close> event (or a rejected initialize request) settles the
  race, the \<^verbatim>\<open>await\<close> throws, the \<^verbatim>\<open>clearTimeout\<close> after it does not run, and the timer
  stays pending after the promise is rejected. When the response settles the race the
  timer is cancelled.
\<close>

theorem spawn_failure_leaves_timer_pending:
  "promise_state (childError 0 m (snd (initialize h (new_client h opts)))) 0
     = Rejected (SpawnError m)
   \<and> pending_timer (childError 0 m (snd (initialize h (new_client h opts)))) (InitTimer 0)
   \<and> promise_state (initializeRejected 0 m (snd (initialize h (new_client h opts)))) 0
     = Rejected (RequestFailed m)
   \<and> pending_timer (initializeRejected 0 m (snd (initialize h (new_client h opts)))) (InitTimer 0)
   \<and> \<not> pending_timer (initializeResponse 0 r (snd (initialize h (new_client h opts)))) (InitTimer 0)"
  by (simp add: new_client_def initialize_def start_def handshake_defs promise_state_def
        pending_timer_def)

section \<open>Properties of paths and locations\<close>

text \<open>
  C9. With the workspace root \<^verbatim>\<open>/ws\<close>, the path \<^verbatim>\<open>..foo/a.ts\<close> resolves to
  \<^verbatim>\<open>/ws/..foo/a.ts\<close>, which lies within the root; \<open>toAbsolutePath\<close> throws the escape
  error for it all the same, its relative path starting with two dots.
\<close>

theorem toAbsolutePath_rejects_path_within_root:
  "toAbsolutePath ''/'' ''/ws'' ''..foo/a.ts'' = Inl (PathEscape ''/ws/..foo/a.ts'' ''/ws'')
   \<and> within_root ''/ws'' ''/ws/..foo/a.ts''"
  by (simp add: toAbsolutePath_def resolve_def relative_def isAbsolute_def startsWith_def
        within_root_def segments_def)

text \<open>
  C5. The definition operation returns plain locations: none for a null or absent answer,
  the one location of a single-location answer, and for a list answer its entries in
  order, a location as it is and a location link as the location of its target uri with
  its selection range when it has one and its target range otherwise.
\<close>

theorem getDefinition_normalizes:
  "getDefinition_return NoAnswer = []
   \<and> getDefinition_return (OneLocation l) = [l]
   \<and> getDefinition_return (Entries es) =
       map (\<lambda>entry. case entry of
                Loc l' \<Rightarrow> l'
              | Link k \<Rightarrow>
                  (case targetSelectionRange k of
                     Some r \<Rightarrow> \<lparr>loc_uri = targetUri k, loc_range = r\<rparr>
                   | None \<Rightarrow> \<lparr>loc_uri = targetUri k, loc_range = targetRange k\<rparr>)) es"
  by (auto simp: getDefinition_return_def normalizeEntry_def
        split: location_entry.splits option.splits)

section \<open>Properties of document synchronization\<close>

lemma initialize_memoized: "initializePromise w = Some p \<Longrightarrow> initialize h w = (p, w)"
  by (simp add: initialize_def)

lemma ready_initialize:
  "ready w \<Longrightarrow> \<exists>p r. initialize h w = (p, w) \<and> promise_state w p = Fulfilled r"
  by (auto simp: ready_def initialize_def split: option.splits settled.splits)

lemma ensureDocument_open:
  assumes "toAbsolutePath (cwd h) (workspaceRoot w) filePath = Inr absolutePath"
    and "disk absolutePath = Some text"
    and "openDocuments w (toFileUri h absolutePath) = None"
    and "connection w = Some c"
  shows "ensureDocument h disk filePath w =
           (Inr (\<lparr>doc_uri = toFileUri h absolutePath, doc_path = absolutePath,
                   doc_version = 1, doc_text = text\<rparr>, toFileUri h absolutePath),
            w\<lparr>sent := sent w @ [(c, DidOpenTextDocument (toFileUri h absolutePath)
                                       (resolveLanguageId absolutePath) 1 text)],
              openDocuments := (openDocuments w)(toFileUri h absolutePath \<mapsto>
                 \<lparr>doc_uri = toFileUri h absolutePath, doc_path = absolutePath,
                  doc_version = 1, doc_text = text\<rparr>)\<rparr>)"
  using assms by (simp add: ensureDocument_def assertConnection_def sendOn_def Let_def)


lemma ensureDocument_same:
  assumes "toAbsolutePath (cwd h) (workspaceRoot w) filePath = Inr absolutePath"
    and "disk absolutePath = Some text"
    and "openDocuments w (toFileUri h absolutePath) = Some existing"
    and "doc_text existing = text"
  shows "ensureDocument h disk filePath w = (Inr (existing, toFileUri h absolutePath), w)"
  using assms by (simp add: ensureDocument_def Let_def)




text \<open>Concrete runs: a ready client, and the same client after a first hover.\<close>

lemmas run0_defs =
  h0_def opts0_def result0_def disk0_def disk1_def pos0_def new_client_def initialize_def
  start_def handshake_defs promise_state_def ready_def resolve_def toFileUri_def

lemma root0: "resolve ''/'' [''/ws''] = ''/ws''"
  by (simp add: resolve_def isAbsolute_def)

lemma path0: "toAbsolutePath ''/'' ''/ws'' ''a.ts'' = Inr ''/ws/a.ts''"
  by (simp add: toAbsolutePath_def resolve_def relative_def isAbsolute_def startsWith_def
        segments_def)

lemma ready0_fields:
  "ready ready0" "connection ready0 = Some 0" "child ready0 = Some 0"
  "workspaceRoot ready0 = ''/ws''" "openDocuments ready0 = Map.empty"
  "document_notifications ready0 = []" "initializePromise ready0 = Some 0"
  "promise_state ready0 0 = Fulfilled result0"
  "start_state_of ready0 0 = Some (Returned result0)"
  by (simp_all add: ready0_def run0_defs isAbsolute_def document_notifications_def)

lemma start_state_of_sent [simp]:
  "start_state_of (w\<lparr>sent := s, openDocuments := d\<rparr>) k = start_state_of w k"
  by (simp add: start_state_of_def)

lemma ensure0:
  "ensureDocument h0 disk0 ''a.ts'' ready0 =
     (Inr (\<lparr>doc_uri = ''file:///ws/a.ts'', doc_path = ''/ws/a.ts'',
             doc_version = 1, doc_text = ''let x = 1''\<rparr>, ''file:///ws/a.ts''),
      ready0\<lparr>sent := sent ready0 @
                 [(0, DidOpenTextDocument ''file:///ws/a.ts'' ''typescript'' 1 ''let x = 1'')],
             openDocuments := [''file:///ws/a.ts'' \<mapsto>
                \<lparr>doc_uri = ''file:///ws/a.ts'', doc_path = ''/ws/a.ts'',
                 doc_version = 1, doc_text = ''let x = 1''\<rparr>]\<rparr>)"
proof -
  have p: "toAbsolutePath (cwd h0) (workspaceRoot ready0) ''a.ts'' = Inr ''/ws/a.ts''"
    by (simp add: ready0_fields path0 h0_def)
  have d: "disk0 ''/ws/a.ts'' = Some ''let x = 1''"
    by (simp add: disk0_def)
  have n: "openDocuments ready0 (toFileUri h0 ''/ws/a.ts'') = None"
    by (simp add: ready0_fields)
  have l: "resolveLanguageId ''/ws/a.ts'' = ''typescript''"
    by (simp add: resolveLanguageId_def endsWith_def)
  show ?thesis
    using ensureDocument_open [where disk = disk0, OF p d n ready0_fields(2)]
    by (simp add: l toFileUri_def h0_def ready0_fields)
qed

lemma opened0_eq:
  "opened0 =
     ready0\<lparr>sent := sent ready0 @
                [(0, DidOpenTextDocument ''file:///ws/a.ts'' ''typescript'' 1 ''let x = 1''),
                 (0, HoverRequest ''file:///ws/a.ts'' pos0)],
            openDocuments := [''file:///ws/a.ts'' \<mapsto>
               \<lparr>doc_uri = ''file:///ws/a.ts'', doc_path = ''/ws/a.ts'',
                doc_version = 1, doc_text = ''let x = 1''\<rparr>]\<rparr>"
  by (simp add: opened0_def getHover_def request_after_sync_def
        initialize_memoized [OF ready0_fields(7)] ready0_fields(8) ensure0
        assertConnection_def ready0_fields(2) sendOn_def)






section \<open>Properties of diagnostics\<close>

lemma diag_inv_view: "diag_view w' = diag_view w \<Longrightarrow> diag_inv w' = diag_inv w"
  by (simp add: diag_view_def diag_inv_def set_eq_iff)

lemma waiting_view: "diag_view w' = diag_view w \<Longrightarrow> waiting w' k u = waiting w k u"
  by (simp add: diag_view_def waiting_def set_eq_iff)

lemma fst_filter_timer [simp]:
  "t \<in> fst ` set (filter (\<lambda>(t', _). t' \<noteq> t0) ts) \<longleftrightarrow> t \<noteq> t0 \<and> t \<in> fst ` set ts"
  by force

lemma pending_clearTimeout [simp]:
  "pending_timer (clearTimeout t w) t' \<longleftrightarrow> t' \<noteq> t \<and> pending_timer w t'"
  by (force simp: pending_timer_def clearTimeout_def)

lemma clearTimeout_fields [simp]:
  "waiters (clearTimeout t w) = waiters w"
  "diagnosticsEvents (clearTimeout t w) = diagnosticsEvents w"
  "handlerCalls (clearTimeout t w) = handlerCalls w"
  by (simp_all add: clearTimeout_def)

lemma view_handshake:
  "diag_view (initializeResponse k r w) = diag_view w"
  "diag_view (initializeRejected k m w) = diag_view w"
  "diag_view (initializedSettled k ok w) = diag_view w"
  "diag_view (initTimerFires k w) = diag_view w"
  "diag_view (childError k m w) = diag_view w"
  "diag_view (childExit k w) = diag_view w"
  "diag_view (connectionError k w) = diag_view w"
  "diag_view (connectionClose k w) = diag_view w"
  by (auto simp: diag_view_def initializeResponse_def initializeRejected_def
        initializedSettled_def initTimerFires_def childError_def childExit_def
        connectionError_def connectionClose_def set_start_state_def log_def Let_def
        pending_timer_def clearTimeout_def
        split: option.splits start_state.splits)

lemma view_initialize: "diag_view (snd (initialize h w)) = diag_view w"
  by (auto simp: diag_view_def initialize_def start_def Let_def pending_timer_def
        split: option.splits)

lemma view_ensureDocument: "diag_view (snd (ensureDocument h disk f w)) = diag_view w"
  by (auto simp: diag_view_def ensureDocument_def sendOn_def Let_def pending_timer_def
        split: sum.splits option.splits)

lemma view_shutdown:
  "diag_view (snd (shutdown w)) = diag_view w"
  "diag_view (shutdownSettled j ok w) = diag_view w"
  "diag_view (exitSettled j ok w) = diag_view w"
  by (auto simp: diag_view_def shutdown_defs Let_def pending_timer_def split: option.splits)

lemma view_request_after_sync:
  "diag_view (snd (request_after_sync h disk f rq w :: 'a outcome \<times> world)) = diag_view w"
proof -
  have "diag_view (snd (request_after_sync h disk f rq w :: 'a outcome \<times> world))
          = diag_view (snd (initialize h w))
        \<or> diag_view (snd (request_after_sync h disk f rq w :: 'a outcome \<times> world))
          = diag_view (snd (ensureDocument h disk f (snd (initialize h w))))"
    by (auto simp: request_after_sync_def split_beta sendOn_def diag_view_def
          pending_timer_def split: settled.splits sum.splits)
  then show ?thesis
    by (auto simp: view_initialize view_ensureDocument)
qed


lemma resolve_waiter_fields [simp]:
  "diagnosticsEvents (resolve_waiter k v w) = diagnosticsEvents w"
  "handlerCalls (resolve_waiter k v w) = handlerCalls w"
  "timers (resolve_waiter k v w) = timers w"
  "length (waiters (resolve_waiter k v w)) = length (waiters w)"
  by (simp_all add: resolve_waiter_def)

lemma pending_resolve_waiter [simp]:
  "pending_timer (resolve_waiter k v w) t = pending_timer w t"
  by (simp add: pending_timer_def)

lemma resolve_waiter_nth:
  "j < length (waiters w) \<Longrightarrow>
     waiters (resolve_waiter k v w) ! j =
       (if j = k \<and> waiter_value (waiters w ! k) = None
        then (waiters w ! k)\<lparr>waiter_value := Some v\<rparr> else waiters w ! j)"
  by (simp add: resolve_waiter_def nth_list_update)

lemma pending_diagnosticsEvents [simp]:
  "pending_timer (w\<lparr>diagnosticsEvents := de\<rparr>) t = pending_timer w t"
  "pending_timer (w\<lparr>handlerCalls := hc\<rparr>) t = pending_timer w t"
  "pending_timer (w\<lparr>diagnostics := dg\<rparr>) t = pending_timer w t"
  by (simp_all add: pending_timer_def)

lemma handler_fields [simp]:
  "diagnosticsEvents (handler k p w) = diagnosticsEvents w"
  "handlerCalls (handler k p w) = handlerCalls w @ [k]"
  "length (waiters (handler k p w)) = length (waiters w)"
  "pending_timer (handler k p w) t \<longleftrightarrow> t \<noteq> DiagTimer k \<and> pending_timer w t"
  by (simp_all add: handler_def)

lemma handler_nth:
  "j < length (waiters w) \<Longrightarrow>
     waiters (handler k p w) ! j =
       (if j = k \<and> waiter_value (waiters w ! k) = None
        then (waiters w ! k)\<lparr>waiter_value := Some p\<rparr> else waiters w ! j)"
  by (simp add: handler_def resolve_waiter_nth)

lemma call_listeners_handlerCalls [simp]:
  "handlerCalls (call_listeners ks u p w) = handlerCalls w @ ks"
  by (induction ks arbitrary: w) simp_all

lemma call_listeners_length [simp]:
  "length (waiters (call_listeners ks u p w)) = length (waiters w)"
  by (induction ks arbitrary: w) simp_all

lemma call_listeners_pending [simp]:
  "pending_timer (call_listeners ks u p w) t \<longleftrightarrow>
     pending_timer w t \<and> (\<forall>k\<in>set ks. t \<noteq> DiagTimer k)"
  by (induction ks arbitrary: w) auto

lemma call_listeners_events:
  "distinct (diagnosticsEvents w) \<Longrightarrow>
     diagnosticsEvents (call_listeners ks u p w) =
       filter (\<lambda>x. \<not> (fst x = u \<and> snd x \<in> set ks)) (diagnosticsEvents w)"
proof (induction ks arbitrary: w)
  case Nil
  then show ?case by simp
next
  case (Cons k ks)
  let ?w = "handler k p (w\<lparr>diagnosticsEvents := remove1 (u, k) (diagnosticsEvents w)\<rparr>)"
  have "diagnosticsEvents ?w = filter (\<lambda>x. x \<noteq> (u, k)) (diagnosticsEvents w)"
    using Cons.prems
    by (auto simp: distinct_remove1_removeAll removeAll_filter_not_eq intro: filter_cong)
  moreover have "distinct (diagnosticsEvents ?w)"
    using Cons.prems by simp
  ultimately show ?case
    using Cons.IH [of ?w] by (auto intro!: filter_cong simp: prod_eq_iff)
qed

lemma call_listeners_nth:
  "j < length (waiters w) \<Longrightarrow>
     waiters (call_listeners ks u p w) ! j =
       (if j \<in> set ks \<and> waiter_value (waiters w ! j) = None
        then (waiters w ! j)\<lparr>waiter_value := Some p\<rparr> else waiters w ! j)"
proof (induction ks arbitrary: w)
  case Nil
  then show ?case by simp
next
  case (Cons k ks)
  let ?w = "handler k p (w\<lparr>diagnosticsEvents := remove1 (u, k) (diagnosticsEvents w)\<rparr>)"
  have j: "j < length (waiters ?w)" using Cons.prems by simp
  have "waiters ?w ! j =
          (if j = k \<and> waiter_value (waiters w ! k) = None
           then (waiters w ! k)\<lparr>waiter_value := Some p\<rparr> else waiters w ! j)"
    using Cons.prems by (simp add: handler_nth)
  then show ?case
    using Cons.IH [OF j] by auto
qed

lemma diag_inv_distinct: "diag_inv w \<Longrightarrow> distinct (diagnosticsEvents w)"
  by (simp add: diag_inv_def distinct_map)

lemma emit_events:
  "diag_inv w \<Longrightarrow>
     diagnosticsEvents (emit u p w) = filter (\<lambda>x. fst x \<noteq> u) (diagnosticsEvents w)"
  by (auto simp: emit_def call_listeners_events diag_inv_distinct intro!: filter_cong)


lemma emit_fields:
  "length (waiters (emit u p w)) = length (waiters w)"
  "handlerCalls (emit u p w) =
     handlerCalls w @ map snd (filter (\<lambda>(u', _). u' = u) (diagnosticsEvents w))"
  "pending_timer (emit u p w) t \<longleftrightarrow>
     pending_timer w t \<and> (\<forall>k. (u, k) \<in> set (diagnosticsEvents w) \<longrightarrow> t \<noteq> DiagTimer k)"
  by (auto simp: emit_def)

lemma emit_nth:
  "j < length (waiters w) \<Longrightarrow>
     waiters (emit u p w) ! j =
       (if (u, j) \<in> set (diagnosticsEvents w) \<and> waiter_value (waiters w ! j) = None
        then (waiters w ! j)\<lparr>waiter_value := Some p\<rparr> else waiters w ! j)"
  by (auto simp: emit_def call_listeners_nth image_iff)

lemma diag_inv_emit:
  assumes "diag_inv w"
  shows "diag_inv (emit u p w)"
proof -
  have d: "distinct (map snd (diagnosticsEvents w))"
    and l: "\<And>u' k. (u', k) \<in> set (diagnosticsEvents w) \<Longrightarrow>
              k < length (waiters w) \<and> waiter_uri (waiters w ! k) = u'
              \<and> waiter_value (waiters w ! k) = None \<and> pending_timer w (DiagTimer k)"
    and t: "\<And>k. pending_timer w (DiagTimer k) \<Longrightarrow>
              k < length (waiters w) \<and> (waiter_uri (waiters w ! k), k) \<in> set (diagnosticsEvents w)"
    using assms by (auto simp: diag_inv_def)
  have c: "\<And>k. k \<in> set (handlerCalls w) \<Longrightarrow>
              k < length (waiters w) \<and> k \<notin> snd ` set (diagnosticsEvents w)"
    using assms by (auto simp: diag_inv_def)
  have same: "u' = u''" if "(u', k) \<in> set (diagnosticsEvents w)" "(u'', k) \<in> set (diagnosticsEvents w)"
    for u' u'' k
    using l [OF that(1)] l [OF that(2)] by simp
  have 1: "distinct (map snd (diagnosticsEvents (emit u p w)))"
    using d by (simp add: emit_events [OF assms] distinct_map_filter)
  have 2: "k < length (waiters (emit u p w)) \<and> waiter_uri (waiters (emit u p w) ! k) = u'
           \<and> waiter_value (waiters (emit u p w) ! k) = None
           \<and> pending_timer (emit u p w) (DiagTimer k)"
    if "(u', k) \<in> set (diagnosticsEvents (emit u p w))" for u' k
  proof -
    have in_w: "(u', k) \<in> set (diagnosticsEvents w)" and ne: "u' \<noteq> u"
      using that by (auto simp: emit_events [OF assms])
    have "(u, k) \<notin> set (diagnosticsEvents w)"
      using same [OF in_w] ne by blast
    then show ?thesis
      using l [OF in_w] by (auto simp: emit_fields emit_nth)
  qed
  have 3: "k < length (waiters (emit u p w))
           \<and> (waiter_uri (waiters (emit u p w) ! k), k) \<in> set (diagnosticsEvents (emit u p w))"
    if "pending_timer (emit u p w) (DiagTimer k)" for k
  proof -
    have pw: "pending_timer w (DiagTimer k)" and nk: "(u, k) \<notin> set (diagnosticsEvents w)"
      using that by (auto simp: emit_fields)
    then show ?thesis
      using t [OF pw] by (auto simp: emit_fields emit_nth emit_events [OF assms])
  qed
  have 4: "k < length (waiters (emit u p w)) \<and> k \<notin> snd ` set (diagnosticsEvents (emit u p w))"
    if "k \<in> set (handlerCalls (emit u p w))" for k
  proof (cases "k \<in> set (handlerCalls w)")
    case True
    then show ?thesis
      using c [OF True] by (auto simp: emit_fields emit_events [OF assms])
  next
    case False
    then have in_w: "(u, k) \<in> set (diagnosticsEvents w)"
      using that by (auto simp: emit_fields)
    have "(u', k) \<notin> set (diagnosticsEvents (emit u p w))" for u'
      using same [OF in_w, of u'] by (auto simp: emit_events [OF assms])
    then show ?thesis
      using l [OF in_w] by (force simp: emit_fields)
  qed
  show ?thesis
    unfolding diag_inv_def using 1 2 3 4 by blast
qed

lemma off_events:
  "distinct (diagnosticsEvents w) \<Longrightarrow>
     diagnosticsEvents (off u k w) = filter (\<lambda>x. x \<noteq> (u, k)) (diagnosticsEvents w)"
  by (auto simp: off_def distinct_remove1_removeAll removeAll_filter_not_eq rev_filter
        intro: filter_cong)

lemma off_fields [simp]:
  "waiters (off u k w) = waiters w"
  "handlerCalls (off u k w) = handlerCalls w"
  "pending_timer (off u k w) t = pending_timer w t"
  by (simp_all add: off_def)

lemma diagTimerFires_fields:
  assumes "pending_timer w (DiagTimer k)" and "k < length (waiters w)"
  shows "handlerCalls (diagTimerFires k w) = handlerCalls w"
    and "length (waiters (diagTimerFires k w)) = length (waiters w)"
    and "pending_timer (diagTimerFires k w) t \<longleftrightarrow> t \<noteq> DiagTimer k \<and> pending_timer w t"
    and "distinct (diagnosticsEvents w) \<Longrightarrow>
           diagnosticsEvents (diagTimerFires k w) =
             filter (\<lambda>x. x \<noteq> (waiter_uri (waiters w ! k), k)) (diagnosticsEvents w)"
    and "j < length (waiters w) \<Longrightarrow>
           waiters (diagTimerFires k w) ! j =
             (if j = k \<and> waiter_value (waiters w ! k) = None
              then (waiters w ! k)\<lparr>waiter_value :=
                     Some \<lparr>pd_uri = waiter_uri (waiters w ! k), pd_diagnostics = []\<rparr>\<rparr>
              else waiters w ! j)"
  using assms by (simp_all add: diagTimerFires_def Let_def off_events resolve_waiter_nth)

lemma diagTimerFires_idle:
  "\<not> (pending_timer w (DiagTimer k) \<and> k < length (waiters w)) \<Longrightarrow> diagTimerFires k w = w"
  by (auto simp: diagTimerFires_def)

lemma diag_inv_diagTimerFires:
  assumes "diag_inv w"
  shows "diag_inv (diagTimerFires k w)"
proof (cases "pending_timer w (DiagTimer k) \<and> k < length (waiters w)")
  case False
  then show ?thesis using assms by (simp add: diagTimerFires_idle)
next
  case True
  note f = diagTimerFires_fields [OF conjunct1 [OF True] conjunct2 [OF True]]
  have dd: "distinct (diagnosticsEvents w)" using assms by (rule diag_inv_distinct)
  have d: "distinct (map snd (diagnosticsEvents w))"
    and l: "\<And>u' k. (u', k) \<in> set (diagnosticsEvents w) \<Longrightarrow>
              k < length (waiters w) \<and> waiter_uri (waiters w ! k) = u'
              \<and> waiter_value (waiters w ! k) = None \<and> pending_timer w (DiagTimer k)"
    and t: "\<And>k. pending_timer w (DiagTimer k) \<Longrightarrow>
              k < length (waiters w) \<and> (waiter_uri (waiters w ! k), k) \<in> set (diagnosticsEvents w)"
    using assms by (auto simp: diag_inv_def)
  have 1: "distinct (map snd (diagnosticsEvents (diagTimerFires k w)))"
    using d by (simp add: f(4) [OF dd] distinct_map_filter)
  have 2: "k' < length (waiters (diagTimerFires k w))
           \<and> waiter_uri (waiters (diagTimerFires k w) ! k') = u'
           \<and> waiter_value (waiters (diagTimerFires k w) ! k') = None
           \<and> pending_timer (diagTimerFires k w) (DiagTimer k')"
    if "(u', k') \<in> set (diagnosticsEvents (diagTimerFires k w))" for u' k'
  proof -
    have in_w: "(u', k') \<in> set (diagnosticsEvents w)"
      and ne: "(u', k') \<noteq> (waiter_uri (waiters w ! k), k)"
      using that by (auto simp: f(4) [OF dd])
    have "k' \<noteq> k" using l [OF in_w] ne by auto
    then show ?thesis
      using l [OF in_w] by (simp add: f)
  qed
  have 3: "k' < length (waiters (diagTimerFires k w))
           \<and> (waiter_uri (waiters (diagTimerFires k w) ! k'), k')
               \<in> set (diagnosticsEvents (diagTimerFires k w))"
    if "pending_timer (diagTimerFires k w) (DiagTimer k')" for k'
  proof -
    have pw: "pending_timer w (DiagTimer k')" and nk: "k' \<noteq> k"
      using that by (auto simp: f(3))
    then show ?thesis
      using t [OF pw] by (simp add: f(2,5) f(4) [OF dd])
  qed
  have 4: "k' < length (waiters (diagTimerFires k w))
           \<and> k' \<notin> snd ` set (diagnosticsEvents (diagTimerFires k w))"
    if "k' \<in> set (handlerCalls (diagTimerFires k w))" for k'
    using that assms by (force simp: f(1,2) f(4) [OF dd] diag_inv_def)
  show ?thesis
    unfolding diag_inv_def using 1 2 3 4 by blast
qed


lemma diag_inv_publishDiagnostics: "diag_inv w \<Longrightarrow> diag_inv (publishDiagnostics c p w)"
proof -
  assume a: "diag_inv w"
  have v: "diag_view (w\<lparr>diagnostics := (diagnostics w)(pd_uri p \<mapsto> p)\<rparr>) = diag_view w"
    by (simp add: diag_view_def)
  have "diag_inv (w\<lparr>diagnostics := (diagnostics w)(pd_uri p \<mapsto> p)\<rparr>)"
    using a diag_inv_view [OF v] by simp
  then show ?thesis
    using a by (simp add: publishDiagnostics_def handleDiagnostics_def diag_inv_emit)
qed

lemma getDiagnostics_cases:
  "snd (getDiagnostics h disk f w) = snd (initialize h w)
   \<or> snd (getDiagnostics h disk f w) = snd (ensureDocument h disk f (snd (initialize h w)))
   \<or> (\<exists>u. snd (getDiagnostics h disk f w)
            = snd (new_waiter u (snd (ensureDocument h disk f (snd (initialize h w))))))"
  by (simp add: getDiagnostics_def split_beta
        split: settled.splits sum.splits option.splits) blast

lemma diag_inv_new_waiter:
  assumes "diag_inv w"
  shows "diag_inv (snd (new_waiter u w))"
proof -
  have d: "distinct (map snd (diagnosticsEvents w))"
    and l: "\<And>u' k. (u', k) \<in> set (diagnosticsEvents w) \<Longrightarrow>
              k < length (waiters w) \<and> waiter_uri (waiters w ! k) = u'
              \<and> waiter_value (waiters w ! k) = None \<and> pending_timer w (DiagTimer k)"
    and t: "\<And>k. pending_timer w (DiagTimer k) \<Longrightarrow>
              k < length (waiters w) \<and> (waiter_uri (waiters w ! k), k) \<in> set (diagnosticsEvents w)"
    using assms by (auto simp: diag_inv_def)
  have p: "pending_timer (snd (new_waiter u w)) t \<longleftrightarrow> t = DiagTimer (length (waiters w)) \<or> pending_timer w t"
    for t
    by (auto simp: new_waiter_def Let_def pending_timer_def)
  have fresh: "length (waiters w) \<notin> snd ` set (diagnosticsEvents w)"
    using l by force
  have 1: "distinct (map snd (diagnosticsEvents (snd (new_waiter u w))))"
    using d fresh by (simp add: new_waiter_def Let_def)
  have 2: "k < length (waiters (snd (new_waiter u w))) \<and> waiter_uri (waiters (snd (new_waiter u w)) ! k) = u'
           \<and> waiter_value (waiters (snd (new_waiter u w)) ! k) = None
           \<and> pending_timer (snd (new_waiter u w)) (DiagTimer k)"
    if "(u', k) \<in> set (diagnosticsEvents (snd (new_waiter u w)))" for u' k
    using that l [of u' k] by (auto simp: p) (auto simp: new_waiter_def Let_def nth_append)
  have 3: "k < length (waiters (snd (new_waiter u w)))
           \<and> (waiter_uri (waiters (snd (new_waiter u w)) ! k), k)
               \<in> set (diagnosticsEvents (snd (new_waiter u w)))"
    if "pending_timer (snd (new_waiter u w)) (DiagTimer k)" for k
    using that t [of k] by (auto simp: p) (auto simp: new_waiter_def Let_def nth_append)
  have 4: "k < length (waiters (snd (new_waiter u w)))
           \<and> k \<notin> snd ` set (diagnosticsEvents (snd (new_waiter u w)))"
    if "k \<in> set (handlerCalls (snd (new_waiter u w)))" for k
    using that assms by (force simp: new_waiter_def Let_def diag_inv_def)
  show ?thesis
    unfolding diag_inv_def using 1 2 3 4 by blast
qed

lemma diag_inv_getDiagnostics: "diag_inv w \<Longrightarrow> diag_inv (snd (getDiagnostics h disk f w))"
proof -
  assume a: "diag_inv w"
  have i: "diag_inv (snd (initialize h w))"
    using a by (simp add: diag_inv_view [OF view_initialize])
  then have e: "diag_inv (snd (ensureDocument h disk f (snd (initialize h w))))"
    by (simp add: diag_inv_view [OF view_ensureDocument])
  show ?thesis
    using getDiagnostics_cases [of h disk f w] i e diag_inv_new_waiter [OF e]
    by metis
qed

lemma diag_inv_step: "diag_inv w \<Longrightarrow> diag_inv (step h e w)"
proof (cases e)
  case (TimerFires t)
  then show "diag_inv w \<Longrightarrow> ?thesis"
    by (cases t) (simp_all add: diag_inv_diagTimerFires diag_inv_view [OF view_handshake(4)])
qed (simp_all add: diag_inv_publishDiagnostics diag_inv_getDiagnostics
       getHover_def getDefinition_def findReferences_def documentSymbols_def
       diag_inv_view [OF view_initialize] diag_inv_view [OF view_request_after_sync]
       diag_inv_view [OF view_shutdown(1)] diag_inv_view [OF view_shutdown(2)]
       diag_inv_view [OF view_shutdown(3)] diag_inv_view [OF view_handshake(1)]
       diag_inv_view [OF view_handshake(2)] diag_inv_view [OF view_handshake(3)]
       diag_inv_view [OF view_handshake(5)] diag_inv_view [OF view_handshake(6)]
       diag_inv_view [OF view_handshake(7)] diag_inv_view [OF view_handshake(8)])

lemma diag_inv_run: "diag_inv w \<Longrightarrow> diag_inv (run h es w)"
  by (induction es arbitrary: w) (simp_all add: diag_inv_step)

lemma diag_inv_new: "diag_inv (new_client h opts)"
  by (simp add: diag_inv_def new_client_def pending_timer_def)

lemma diag_invD:
  assumes "diag_inv w"
  shows "distinct (map snd (diagnosticsEvents w))"
    and "\<And>u k. (u, k) \<in> set (diagnosticsEvents w) \<Longrightarrow>
              k < length (waiters w) \<and> waiter_uri (waiters w ! k) = u
              \<and> waiter_value (waiters w ! k) = None \<and> pending_timer w (DiagTimer k)"
    and "\<And>k. pending_timer w (DiagTimer k) \<Longrightarrow>
              k < length (waiters w) \<and> (waiter_uri (waiters w ! k), k) \<in> set (diagnosticsEvents w)"
    and "\<And>k. k \<in> set (handlerCalls w) \<Longrightarrow>
              k < length (waiters w) \<and> k \<notin> snd ` set (diagnosticsEvents w)"
  using assms by (auto simp: diag_inv_def)

text \<open>A waiter whose timer is pending is registered and unresolved.\<close>

lemma pending_waiting:
  assumes "diag_inv w" and "pending_timer w (DiagTimer k)"
  shows "waiting w k (waiter_uri (waiters w ! k))"
proof -
  have r: "k < length (waiters w)" "(waiter_uri (waiters w ! k), k) \<in> set (diagnosticsEvents w)"
    using diag_invD(3) [OF assms] by simp_all
  have "waiter_value (waiters w ! k) = None"
    using diag_invD(2) [OF assms(1) r(2)] by simp
  then have "waiters w ! k = \<lparr>waiter_uri = waiter_uri (waiters w ! k), waiter_value = None\<rparr>"
    by (cases "waiters w ! k") simp
  then show ?thesis
    using assms(2) r by (simp add: waiting_def)
qed

lemma waiting_new_waiter:
  "waiting w k u \<Longrightarrow> waiting (snd (new_waiter u' w)) k u"
  by (auto simp: waiting_def new_waiter_def Let_def nth_append pending_timer_def)

lemma new_waiter_waiting:
  "waiting (snd (new_waiter u w)) (length (waiters w)) u"
  by (auto simp: waiting_def new_waiter_def Let_def nth_append pending_timer_def)

lemma waiting_getDiagnostics:
  assumes "waiting w k u"
  shows "waiting (snd (getDiagnostics h disk f w)) k u"
proof -
  have i: "waiting (snd (initialize h w)) k u"
    using assms waiting_view [OF view_initialize] by simp
  then have e: "waiting (snd (ensureDocument h disk f (snd (initialize h w)))) k u"
    using waiting_view [OF view_ensureDocument] by simp
  show ?thesis
    using getDiagnostics_cases [of h disk f w] i e waiting_new_waiter [OF e]
    by metis
qed

lemma waiting_emit:
  assumes "diag_inv w" and "waiting w k u" and "u' \<noteq> u"
  shows "waiting (emit u' p w) k u"
proof -
  have "(u', k) \<notin> set (diagnosticsEvents w)"
    using diag_invD(2) [OF assms(1), of u' k] assms(2,3) by (auto simp: waiting_def)
  then show ?thesis
    using assms(2,3) by (auto simp: waiting_def emit_fields emit_nth emit_events [OF assms(1)])
qed

lemma waiting_publishDiagnostics:
  assumes "diag_inv w" and "waiting w k u" and "pd_uri p \<noteq> u"
  shows "waiting (publishDiagnostics c p w) k u"
proof -
  let ?w = "w\<lparr>diagnostics := (diagnostics w)(pd_uri p \<mapsto> p)\<rparr>"
  have v: "diag_view ?w = diag_view w"
    by (simp add: diag_view_def)
  have "waiting (emit (pd_uri p) p ?w) k u"
    using waiting_emit [of ?w k u "pd_uri p" p] assms diag_inv_view [OF v] waiting_view [OF v]
    by simp
  then show ?thesis
    using assms(2) by (simp add: publishDiagnostics_def handleDiagnostics_def)
qed

lemma waiting_diagTimerFires:
  assumes "diag_inv w" and "waiting w k u" and "k' \<noteq> k"
  shows "waiting (diagTimerFires k' w) k u"
proof (cases "pending_timer w (DiagTimer k') \<and> k' < length (waiters w)")
  case False
  then show ?thesis using assms(2) by (simp add: diagTimerFires_idle)
next
  case True
  note f = diagTimerFires_fields [OF conjunct1 [OF True] conjunct2 [OF True]]
  show ?thesis
    using assms(2,3) by (auto simp: waiting_def f(2,3,5) f(4) [OF diag_inv_distinct [OF assms(1)]])
qed

lemma waiting_step:
  assumes "diag_inv w" and "waiting w k u" and "quiet u k e"
  shows "waiting (step h e w) k u"
proof (cases e)
  case (TimerFires t)
  then show ?thesis
    using assms waiting_view [OF view_handshake(4)]
    by (cases t) (simp_all add: quiet_def waiting_diagTimerFires)
next
  case (PublishDiagnostics c p)
  then show ?thesis
    using assms by (simp add: quiet_def waiting_publishDiagnostics)
next
  case (CallGetDiagnostics disk f)
  then show ?thesis
    using assms by (simp add: waiting_getDiagnostics)
qed (use assms(2) in \<open>simp_all add: getHover_def getDefinition_def findReferences_def
       documentSymbols_def
       waiting_view [OF view_initialize] waiting_view [OF view_request_after_sync]
       waiting_view [OF view_shutdown(1)] waiting_view [OF view_shutdown(2)]
       waiting_view [OF view_shutdown(3)] waiting_view [OF view_handshake(1)]
       waiting_view [OF view_handshake(2)] waiting_view [OF view_handshake(3)]
       waiting_view [OF view_handshake(5)] waiting_view [OF view_handshake(6)]
       waiting_view [OF view_handshake(7)] waiting_view [OF view_handshake(8)]\<close>)

lemma waiting_run:
  "diag_inv w \<Longrightarrow> waiting w k u \<Longrightarrow> list_all (quiet u k) es \<Longrightarrow> waiting (run h es w) k u"
  by (induction es arbitrary: w) (simp_all add: waiting_step diag_inv_step)

lemma count_list_distinct: "distinct xs \<Longrightarrow> x \<in> set xs \<Longrightarrow> count_list xs x = 1"
  by (induction xs) auto

text \<open>What the two ends of a wait do to a waiting waiter.\<close>

lemma waiting_timeout:
  assumes "diag_inv w" and "waiting w k u"
  shows "waiter_value (waiters (diagTimerFires k w) ! k) = Some \<lparr>pd_uri = u, pd_diagnostics = []\<rparr>"
    and "k \<notin> snd ` set (diagnosticsEvents (diagTimerFires k w))"
    and "\<not> pending_timer (diagTimerFires k w) (DiagTimer k)"
    and "handlerCalls (diagTimerFires k w) = handlerCalls w"
    and "k \<notin> set (handlerCalls w)"
proof -
  have p: "pending_timer w (DiagTimer k)" and k: "k < length (waiters w)"
    and wk: "waiters w ! k = \<lparr>waiter_uri = u, waiter_value = None\<rparr>"
    and r: "(u, k) \<in> set (diagnosticsEvents w)"
    using assms(2) by (simp_all add: waiting_def)
  note f = diagTimerFires_fields [OF p k]
  show "waiter_value (waiters (diagTimerFires k w) ! k) = Some \<lparr>pd_uri = u, pd_diagnostics = []\<rparr>"
    using k wk by (simp add: f(5))
  have "u' = u" if "(u', k) \<in> set (diagnosticsEvents w)" for u'
    using diag_invD(2) [OF assms(1) that] wk by simp
  then show "k \<notin> snd ` set (diagnosticsEvents (diagTimerFires k w))"
    using wk by (auto simp: f(4) [OF diag_inv_distinct [OF assms(1)]])
  show "\<not> pending_timer (diagTimerFires k w) (DiagTimer k)"
    by (simp add: f(3))
  show "handlerCalls (diagTimerFires k w) = handlerCalls w"
    by (simp add: f(1))
  show "k \<notin> set (handlerCalls w)"
    using diag_invD(4) [OF assms(1), of k] r by force
qed

lemma waiting_notified:
  assumes "diag_inv w" and "waiting w k u" and "pd_uri p = u"
    and "c < length (starts w)" and "c \<notin> set (disposed w)"
  shows "waiter_value (waiters (publishDiagnostics c p w) ! k) = Some p"
    and "\<not> pending_timer (publishDiagnostics c p w) (DiagTimer k)"
    and "count_list (handlerCalls (publishDiagnostics c p w)) k = 1"
    and "k \<notin> snd ` set (diagnosticsEvents (publishDiagnostics c p w))"
proof -
  let ?w = "w\<lparr>diagnostics := (diagnostics w)(pd_uri p \<mapsto> p)\<rparr>"
  have v: "diag_view ?w = diag_view w"
    by (simp add: diag_view_def)
  have inv: "diag_inv ?w" and wt: "waiting ?w k u"
    using assms(1,2) diag_inv_view [OF v] waiting_view [OF v] by simp_all
  have eq: "publishDiagnostics c p w = emit u p ?w"
    using assms(3,4,5) by (simp add: publishDiagnostics_def handleDiagnostics_def)
  have k: "k < length (waiters ?w)"
    and wk: "waiters ?w ! k = \<lparr>waiter_uri = u, waiter_value = None\<rparr>"
    and r: "(u, k) \<in> set (diagnosticsEvents ?w)"
    using wt by (simp_all add: waiting_def)
  show "waiter_value (waiters (publishDiagnostics c p w) ! k) = Some p"
    using k wk r by (simp add: eq emit_nth)
  show "\<not> pending_timer (publishDiagnostics c p w) (DiagTimer k)"
    using r by (auto simp: eq emit_fields)
  have "u' = u" if "(u', k) \<in> set (diagnosticsEvents ?w)" for u'
    using diag_invD(2) [OF inv that] wk by simp
  then show "k \<notin> snd ` set (diagnosticsEvents (publishDiagnostics c p w))"
    by (auto simp: eq emit_events [OF inv])
  have old: "count_list (handlerCalls ?w) k = 0"
    using diag_invD(4) [OF inv, of k] r by (force simp: count_list_0_iff)
  have "distinct (map snd (filter (\<lambda>(u', _). u' = u) (diagnosticsEvents ?w)))"
    using diag_invD(1) [OF inv] by (simp add: distinct_map_filter)
  moreover have "k \<in> set (map snd (filter (\<lambda>(u', _). u' = u) (diagnosticsEvents ?w)))"
    using r by force
  ultimately have "count_list (map snd (filter (\<lambda>(u', _). u' = u) (diagnosticsEvents ?w))) k = 1"
    by (simp add: count_list_distinct)
  then show "count_list (handlerCalls (publishDiagnostics c p w)) k = 1"
    using old by (simp add: eq emit_fields)
qed

lemma view_fields:
  assumes "diag_view w' = diag_view w"
  shows "waiters w' = waiters w" and "diagnosticsEvents w' = diagnosticsEvents w"
    and "handlerCalls w' = handlerCalls w"
  using assms by (simp_all add: diag_view_def)

lemma retired_view:
  assumes "diag_view w' = diag_view w" and "retired w k"
  shows "retired w' k \<and> waiters w' ! k = waiters w ! k
         \<and> count_list (handlerCalls w') k = count_list (handlerCalls w) k"
  using assms(2) by (simp add: retired_def view_fields [OF assms(1)])

lemma retired_new_waiter:
  assumes "retired w k"
  shows "retired (snd (new_waiter u w)) k \<and> waiters (snd (new_waiter u w)) ! k = waiters w ! k
         \<and> count_list (handlerCalls (snd (new_waiter u w))) k = count_list (handlerCalls w) k"
  using assms by (auto simp: retired_def new_waiter_def Let_def nth_append)

lemma retired_getDiagnostics:
  assumes "retired w k"
  shows "retired (snd (getDiagnostics h disk f w)) k
         \<and> waiters (snd (getDiagnostics h disk f w)) ! k = waiters w ! k
         \<and> count_list (handlerCalls (snd (getDiagnostics h disk f w))) k
             = count_list (handlerCalls w) k"
proof -
  note i = retired_view [OF view_initialize assms, of h]
  note e = retired_view [OF view_ensureDocument conjunct1 [OF i], of h disk f]
  show ?thesis
    using getDiagnostics_cases [of h disk f w] i e retired_new_waiter [OF conjunct1 [OF e]]
    by metis
qed

lemma retired_publishDiagnostics:
  assumes "diag_inv w" and "retired w k"
  shows "retired (publishDiagnostics c p w) k
         \<and> waiters (publishDiagnostics c p w) ! k = waiters w ! k
         \<and> count_list (handlerCalls (publishDiagnostics c p w)) k = count_list (handlerCalls w) k"
proof (cases "c < length (starts w) \<and> c \<notin> set (disposed w)")
  case False
  then show ?thesis using assms(2) by (auto simp: publishDiagnostics_def)
next
  case True
  let ?w = "w\<lparr>diagnostics := (diagnostics w)(pd_uri p \<mapsto> p)\<rparr>"
  have v: "diag_view ?w = diag_view w"
    by (simp add: diag_view_def)
  have inv: "diag_inv ?w"
    using assms(1) diag_inv_view [OF v] by simp
  have eq: "publishDiagnostics c p w = emit (pd_uri p) p ?w"
    using True by (simp add: publishDiagnostics_def handleDiagnostics_def)
  have k: "k < length (waiters w)" and n: "\<And>u. (u, k) \<notin> set (diagnosticsEvents w)"
    using assms(2) by (force simp: retired_def)+
  have "k \<notin> snd ` {x \<in> set (diagnosticsEvents w). fst x = pd_uri p}"
    using n by force
  then have "count_list (map snd (filter (\<lambda>(u', _). u' = pd_uri p) (diagnosticsEvents w))) k = 0"
    by (auto simp: count_list_0_iff case_prod_beta)
  then show ?thesis
    using k n by (auto simp: eq retired_def emit_fields emit_nth emit_events [OF inv])
qed

lemma retired_diagTimerFires:
  assumes "diag_inv w" and "retired w k"
  shows "retired (diagTimerFires k' w) k
         \<and> waiters (diagTimerFires k' w) ! k = waiters w ! k
         \<and> count_list (handlerCalls (diagTimerFires k' w)) k = count_list (handlerCalls w) k"
proof (cases "pending_timer w (DiagTimer k') \<and> k' < length (waiters w)")
  case False
  then show ?thesis using assms(2) by (simp add: diagTimerFires_idle)
next
  case True
  note f = diagTimerFires_fields [OF conjunct1 [OF True] conjunct2 [OF True]]
  have "k' \<noteq> k"
    using diag_invD(3) [OF assms(1) conjunct1 [OF True]] assms(2) by (force simp: retired_def)
  then show ?thesis
    using assms(2)
    by (auto simp: retired_def f(1,2,5) f(4) [OF diag_inv_distinct [OF assms(1)]])
qed

lemma retired_step:
  assumes "diag_inv w" and "retired w k"
  shows "retired (step h e w) k \<and> waiters (step h e w) ! k = waiters w ! k
         \<and> count_list (handlerCalls (step h e w)) k = count_list (handlerCalls w) k"
proof (cases e)
  case (TimerFires t)
  then show ?thesis
    using assms retired_view [OF view_handshake(4) assms(2)]
    by (cases t) (simp_all add: retired_diagTimerFires)
next
  case (PublishDiagnostics c p)
  then show ?thesis
    using assms by (simp add: retired_publishDiagnostics)
next
  case (CallGetDiagnostics disk f)
  then show ?thesis
    using assms by (simp add: retired_getDiagnostics)
qed (simp_all add: getHover_def getDefinition_def findReferences_def documentSymbols_def
       retired_view [OF view_initialize assms(2)]
       retired_view [OF view_request_after_sync assms(2)]
       retired_view [OF view_shutdown(1) assms(2)] retired_view [OF view_shutdown(2) assms(2)]
       retired_view [OF view_shutdown(3) assms(2)] retired_view [OF view_handshake(1) assms(2)]
       retired_view [OF view_handshake(2) assms(2)] retired_view [OF view_handshake(3) assms(2)]
       retired_view [OF view_handshake(5) assms(2)] retired_view [OF view_handshake(6) assms(2)]
       retired_view [OF view_handshake(7) assms(2)] retired_view [OF view_handshake(8) assms(2)])

lemma retired_run:
  "diag_inv w \<Longrightarrow> retired w k \<Longrightarrow>
     retired (run h es w) k \<and> waiters (run h es w) ! k = waiters w ! k
     \<and> count_list (handlerCalls (run h es w)) k = count_list (handlerCalls w) k"
proof (induction es arbitrary: w)
  case Nil
  then show ?case by simp
next
  case (Cons e es)
  show ?case
    using Cons.IH [of "step h e w"] retired_step [OF Cons.prems, of h e]
      diag_inv_step [OF Cons.prems(1), of h e]
    by simp
qed


lemma ensureDocument_keeps:
  "diagnostics (snd (ensureDocument h disk f w)) = diagnostics w"
  "diagnosticsTimeout (snd (ensureDocument h disk f w)) = diagnosticsTimeout w"
  "connection (snd (ensureDocument h disk f w)) = connection w"
  by (simp_all add: ensureDocument_def sendOn_def Let_def split: sum.splits option.splits)

lemma call_listeners_timeout [simp]:
  "diagnosticsTimeout (call_listeners ks u p w) = diagnosticsTimeout w"
  by (induction ks arbitrary: w) (simp_all add: handler_def resolve_waiter_def clearTimeout_def)

lemma timeout_initialize: "diagnosticsTimeout (snd (initialize h w)) = diagnosticsTimeout w"
  by (simp add: initialize_def start_def Let_def split: option.splits)

lemma timeout_request_after_sync:
  "diagnosticsTimeout (snd (request_after_sync h disk f rq w :: 'a outcome \<times> world))
     = diagnosticsTimeout w"
  by (simp add: request_after_sync_def split_beta sendOn_def timeout_initialize
        ensureDocument_keeps split: settled.splits sum.splits)

lemma timeout_getDiagnostics:
  "diagnosticsTimeout (snd (getDiagnostics h disk f w)) = diagnosticsTimeout w"
  by (simp add: getDiagnostics_def split_beta new_waiter_def Let_def timeout_initialize
        ensureDocument_keeps split: settled.splits sum.splits option.splits)

lemma timeout_step: "diagnosticsTimeout (step h e w) = diagnosticsTimeout w"
proof (cases e)
  case (TimerFires t)
  then show ?thesis
    by (cases t)
       (simp_all add: initTimerFires_def diagTimerFires_def set_start_state_def
          clearTimeout_def off_def resolve_waiter_def Let_def)
qed (simp_all add: timeout_initialize timeout_request_after_sync timeout_getDiagnostics
       getHover_def getDefinition_def findReferences_def documentSymbols_def
       initializeResponse_def initializeRejected_def initializedSettled_def childError_def
       childExit_def connectionError_def connectionClose_def set_start_state_def
       clearTimeout_def log_def publishDiagnostics_def handleDiagnostics_def emit_def
       shutdown_defs Let_def split: option.splits start_state.splits)

lemma timeout_run: "diagnosticsTimeout (run h es w) = diagnosticsTimeout w"
  by (induction es arbitrary: w) (simp_all add: timeout_step)

lemma getDiagnostics_cached:
  assumes "ready w" and "ensureDocument h disk filePath w = (Inr (st, uri), w2)"
    and "diagnostics w uri = Some cached"
  shows "getDiagnostics h disk filePath w = (Returns cached, w2)"
proof -
  have "diagnostics w2 = diagnostics w"
    using ensureDocument_keeps(1) [of h disk filePath w] assms(2) by simp
  then show ?thesis
    using assms ready_initialize [OF assms(1), of h] by (auto simp: getDiagnostics_def)
qed

lemma getDiagnostics_waits:
  assumes "ready w" and "ensureDocument h disk filePath w = (Inr (st, uri), w2)"
    and "diagnostics w uri = None"
  shows "getDiagnostics h disk filePath w =
           (AwaitsDiagnostics (length (waiters w)), snd (new_waiter uri w2))"
proof -
  have "diagnostics w2 = diagnostics w"
    using ensureDocument_keeps(1) [of h disk filePath w] assms(2) by simp
  moreover have "waiters w2 = waiters w"
    using view_fields(1) [OF view_ensureDocument, of h disk filePath w] assms(2) by simp
  ultimately show ?thesis
    using assms ready_initialize [OF assms(1), of h]
    by (auto simp: getDiagnostics_def new_waiter_def Let_def)
qed


section \<open>Properties of a client that has been shut down\<close>

lemma call_listeners_connection [simp]:
  "connection (call_listeners ks u p w) = connection w"
  by (induction ks arbitrary: w) (simp_all add: handler_def resolve_waiter_def clearTimeout_def)

lemma connection_request_after_sync:
  "initializePromise w = Some p \<Longrightarrow>
     connection (snd (request_after_sync h disk f rq w :: 'a outcome \<times> world)) = connection w"
  by (simp add: request_after_sync_def initialize_memoized split_beta sendOn_def
        ensureDocument_keeps split: settled.splits sum.splits)

lemma connection_getDiagnostics:
  "initializePromise w = Some p \<Longrightarrow>
     connection (snd (getDiagnostics h disk f w)) = connection w"
  by (simp add: getDiagnostics_def initialize_memoized split_beta new_waiter_def Let_def
        ensureDocument_keeps split: settled.splits sum.splits option.splits)

lemma connection_step:
  assumes "initializePromise w = Some p" and "connection w = None"
  shows "connection (step h e w) = None"
proof (cases e)
  case (TimerFires t)
  then show ?thesis
    using assms(2)
    by (cases t)
       (simp_all add: initTimerFires_def diagTimerFires_def set_start_state_def
          clearTimeout_def off_def resolve_waiter_def Let_def)
next
  case CallShutdown
  then show ?thesis
    using assms(2) by (simp add: shutdown_def)
next
  case (ShutdownSettled j ok)
  then show ?thesis
    using assms(2) by (simp add: shutdown_defs)
next
  case (ExitSettled j ok)
  then show ?thesis
    using assms(2) by (simp add: shutdown_defs)
qed (use assms in \<open>simp_all add: initialize_memoized connection_request_after_sync
       connection_getDiagnostics
       getHover_def getDefinition_def findReferences_def documentSymbols_def
       initializeResponse_def initializeRejected_def initializedSettled_def childError_def
       childExit_def connectionError_def connectionClose_def set_start_state_def
       clearTimeout_def log_def publishDiagnostics_def handleDiagnostics_def emit_def
       Let_def split: option.splits start_state.splits\<close>)

lemma promise_step:
  assumes "initializePromise w = Some p"
  shows "initializePromise (step h e w) = Some p"
  using step_keeps_call [of e h w] step_keeps_other [of e h w] assms
  by (cases "calls_initialize e") (simp_all add: initialize_memoized)

lemma fulfilled_step:
  assumes "promise_state w p = Fulfilled r"
  shows "promise_state (step h e w) p = Fulfilled r"
  using promise_settled_run [of w p h "[e]"] assms by simp

lemma shut_down_step: "shut_down w p r \<Longrightarrow> shut_down (step h e w) p r"
  by (simp add: shut_down_def connection_step promise_step fulfilled_step)

lemma shut_down_run: "shut_down w p r \<Longrightarrow> shut_down (run h es w) p r"
  by (induction es arbitrary: w) (simp_all add: shut_down_step)


lemma shut_down_ensureDocument:
  assumes "shut_down w p r"
    and "toAbsolutePath (cwd h) (workspaceRoot w) filePath = Inr absolutePath"
    and "disk absolutePath = Some text"
  shows "ensureDocument h disk filePath w =
           (case openDocuments w (toFileUri h absolutePath) of
              None \<Rightarrow> (Inl ConnectionNotInitialized, w)
            | Some existing \<Rightarrow>
                if doc_text existing \<noteq> text then (Inl ConnectionNotInitialized, w)
                else (Inr (existing, toFileUri h absolutePath), w))"
  using assms
  by (simp add: shut_down_def ensureDocument_def assertConnection_def Let_def
        split: option.splits)

lemma shut_down_request_after_sync:
  assumes "shut_down w p r"
    and "toAbsolutePath (cwd h) (workspaceRoot w) filePath = Inr absolutePath"
    and "disk absolutePath = Some text"
  shows "request_after_sync h disk filePath rq w = (Throws ConnectionNotInitialized, w)"
  using assms(1) shut_down_ensureDocument [where disk = disk, OF assms]
  by (simp add: shut_down_def request_after_sync_def initialize_memoized assertConnection_def
        split: option.splits)


section \<open>Properties of shutdown\<close>

text \<open>Events of no call of shutdown leave connection, child and the calls of shutdown alone.\<close>

lemma call_listeners_live [simp]:
  "child (call_listeners ks u p w) = child w"
  "shutdowns (call_listeners ks u p w) = shutdowns w"
  by (induction ks arbitrary: w) (simp_all add: handler_def resolve_waiter_def clearTimeout_def)

lemma ensureDocument_live:
  "child (snd (ensureDocument h disk f w)) = child w"
  "shutdowns (snd (ensureDocument h disk f w)) = shutdowns w"
  by (simp_all add: ensureDocument_def sendOn_def Let_def split: sum.splits option.splits)

lemma request_after_sync_live:
  assumes "initializePromise w = Some p"
  shows "child (snd (request_after_sync h disk f rq w :: 'a outcome \<times> world)) = child w"
    and "shutdowns (snd (request_after_sync h disk f rq w :: 'a outcome \<times> world)) = shutdowns w"
  using assms
  by (simp_all add: request_after_sync_def initialize_memoized split_beta sendOn_def
        ensureDocument_live split: settled.splits sum.splits)

lemma getDiagnostics_live:
  assumes "initializePromise w = Some p"
  shows "child (snd (getDiagnostics h disk f w)) = child w"
    and "shutdowns (snd (getDiagnostics h disk f w)) = shutdowns w"
  using assms
  by (simp_all add: getDiagnostics_def initialize_memoized split_beta new_waiter_def Let_def
        ensureDocument_live split: settled.splits sum.splits option.splits)

lemma connection_other_step:
  assumes "initializePromise w = Some p" and "\<not> shutdown_event e"
  shows "connection (step h e w) = connection w"
proof (cases e)
  case (TimerFires t)
  then show ?thesis
    by (cases t)
       (simp_all add: initTimerFires_def diagTimerFires_def set_start_state_def
          clearTimeout_def off_def resolve_waiter_def Let_def)
qed (use assms in \<open>simp_all add: shutdown_event_def initialize_memoized
       connection_request_after_sync connection_getDiagnostics
       getHover_def getDefinition_def findReferences_def documentSymbols_def
       initializeResponse_def initializeRejected_def initializedSettled_def childError_def
       childExit_def connectionError_def connectionClose_def set_start_state_def
       clearTimeout_def log_def publishDiagnostics_def handleDiagnostics_def emit_def
       Let_def split: option.splits start_state.splits\<close>)

lemma live_other_step:
  assumes "initializePromise w = Some p" and "\<not> shutdown_event e"
  shows "child (step h e w) = child w \<and> shutdowns (step h e w) = shutdowns w"
proof (cases e)
  case (TimerFires t)
  then show ?thesis
    by (cases t)
       (simp_all add: initTimerFires_def diagTimerFires_def set_start_state_def
          clearTimeout_def off_def resolve_waiter_def Let_def)
qed (use assms in \<open>simp_all add: shutdown_event_def initialize_memoized
       request_after_sync_live getDiagnostics_live
       getHover_def getDefinition_def findReferences_def documentSymbols_def
       initializeResponse_def initializeRejected_def initializedSettled_def childError_def
       childExit_def connectionError_def connectionClose_def set_start_state_def
       clearTimeout_def log_def publishDiagnostics_def handleDiagnostics_def emit_def
       Let_def split: option.splits start_state.splits\<close>)

lemma live_other_run:
  assumes "initializePromise w = Some p" and "list_all (\<lambda>e. \<not> shutdown_event e) es"
  shows "connection (run h es w) = connection w \<and> child (run h es w) = child w
         \<and> shutdowns (run h es w) = shutdowns w \<and> initializePromise (run h es w) = Some p"
  using assms
proof (induction es arbitrary: w)
  case Nil
  then show ?case by simp
next
  case (Cons e es)
  have e: "\<not> shutdown_event e" and es: "list_all (\<lambda>e. \<not> shutdown_event e) es"
    using Cons.prems(2) by simp_all
  show ?case
    using Cons.IH [OF promise_step [OF Cons.prems(1), of h e] es]
      connection_other_step [OF Cons.prems(1) e, of h]
      live_other_step [OF Cons.prems(1) e, of h]
    by simp
qed

text \<open>What has been written, disposed, killed and logged stays so.\<close>

lemma grows_refl [simp]: "grows w w"
  by (simp add: grows_def)

lemma grows_trans: "grows w w' \<Longrightarrow> grows w' w'' \<Longrightarrow> grows w w''"
  by (auto simp: grows_def)

lemma grows_call_listeners: "grows w (call_listeners ks u p w)"
proof (induction ks arbitrary: w)
  case Nil
  then show ?case by simp
next
  case (Cons k ks)
  let ?w = "handler k p (w\<lparr>diagnosticsEvents := remove1 (u, k) (diagnosticsEvents w)\<rparr>)"
  have "grows w ?w"
    by (simp add: grows_def handler_def resolve_waiter_def clearTimeout_def)
  then show ?case
    using Cons.IH [of ?w] by (auto intro: grows_trans)
qed

lemma grows_initialize: "grows w (snd (initialize h w))"
  by (auto simp: grows_def initialize_def start_def Let_def split: option.splits)

lemma grows_ensureDocument: "grows w (snd (ensureDocument h disk f w))"
  by (auto simp: grows_def ensureDocument_def sendOn_def Let_def
        split: sum.splits option.splits)

lemma grows_sendOn: "grows w (sendOn c m w)"
  by (auto simp: grows_def sendOn_def)

lemma grows_new_waiter: "grows w (snd (new_waiter u w))"
  by (auto simp: grows_def new_waiter_def Let_def)

lemma request_after_sync_cases:
  "snd (request_after_sync h disk f rq w :: 'a outcome \<times> world) = snd (initialize h w)
   \<or> snd (request_after_sync h disk f rq w :: 'a outcome \<times> world)
       = snd (ensureDocument h disk f (snd (initialize h w)))
   \<or> (\<exists>c m. snd (request_after_sync h disk f rq w :: 'a outcome \<times> world)
            = sendOn c m (snd (ensureDocument h disk f (snd (initialize h w)))))"
  by (simp add: request_after_sync_def split_beta split: settled.splits sum.splits) blast

lemma grows_request_after_sync:
  "grows w (snd (request_after_sync h disk f rq w :: 'a outcome \<times> world))"
proof -
  have i: "grows w (snd (initialize h w))"
    by (rule grows_initialize)
  have e: "grows w (snd (ensureDocument h disk f (snd (initialize h w))))"
    using i grows_ensureDocument by (rule grows_trans)
  have s: "grows w (sendOn c m (snd (ensureDocument h disk f (snd (initialize h w)))))" for c m
    using e grows_sendOn by (rule grows_trans)
  show ?thesis
    using request_after_sync_cases [of h disk f rq w] i e s by metis
qed

lemma grows_getDiagnostics: "grows w (snd (getDiagnostics h disk f w))"
proof -
  have i: "grows w (snd (initialize h w))"
    by (rule grows_initialize)
  have e: "grows w (snd (ensureDocument h disk f (snd (initialize h w))))"
    using i grows_ensureDocument by (rule grows_trans)
  have s: "grows w (snd (new_waiter u (snd (ensureDocument h disk f (snd (initialize h w))))))"
    for u
    using e grows_new_waiter by (rule grows_trans)
  show ?thesis
    using getDiagnostics_cases [of h disk f w] i e s by metis
qed

lemma grows_shutdown:
  "grows w (snd (shutdown w))" "grows w (shutdownSettled j ok w)"
  "grows w (exitSettled j ok w)"
  by (auto simp: grows_def shutdown_defs Let_def split: option.splits)

lemma grows_handshake:
  "grows w (initializeResponse k r w)" "grows w (initializeRejected k m w)"
  "grows w (initializedSettled k ok w)" "grows w (initTimerFires k w)"
  "grows w (childError k m w)" "grows w (childExit k w)"
  "grows w (connectionError k w)" "grows w (connectionClose k w)"
  by (auto simp: grows_def initializeResponse_def initializeRejected_def
        initializedSettled_def initTimerFires_def childError_def childExit_def
        connectionError_def connectionClose_def set_start_state_def clearTimeout_def
        log_def Let_def split: option.splits start_state.splits)

lemma grows_step: "grows w (step h e w)"
proof (cases e)
  case (TimerFires t)
  have "grows w (diagTimerFires k w)" for k
    by (auto simp: grows_def diagTimerFires_def clearTimeout_def off_def resolve_waiter_def
          Let_def)
  then show ?thesis
    using TimerFires by (cases t) (simp_all add: grows_handshake)
next
  case (PublishDiagnostics c p)
  have "grows w (w\<lparr>diagnostics := (diagnostics w)(pd_uri p \<mapsto> p)\<rparr>)"
    by (simp add: grows_def)
  then have "grows w (handleDiagnostics p w)"
    unfolding handleDiagnostics_def emit_def using grows_call_listeners by (rule grows_trans)
  then show ?thesis
    using PublishDiagnostics by (simp add: publishDiagnostics_def)
qed (simp_all add: grows_initialize grows_request_after_sync grows_getDiagnostics
       grows_shutdown grows_handshake
       getHover_def getDefinition_def findReferences_def documentSymbols_def)

lemma grows_run: "grows w (run h es w)"
proof (induction es arbitrary: w)
  case Nil
  then show ?case by simp
next
  case (Cons e es)
  show ?case
    using grows_step [of w h e] Cons.IH [of "step h e w"] by (auto intro: grows_trans)
qed







lemma shutdown_begins:
  assumes "connection w = Some c" and "child w = Some ch"
  shows "shutdown w =
           (AwaitsResponse c ShutdownRequest,
            w\<lparr>shuttingDown := True, sent := sent w @ [(c, ShutdownRequest)],
              shutdowns := shutdowns w @ [AwaitingShutdown]\<rparr>)"
  using assms by (simp add: shutdown_def sendOn_def)

lemma shutdown_end_live:
  assumes "connection w = Some c" and "child w = Some ch"
  shows "shutdown_end j w =
           w\<lparr>disposed := disposed w @ [c], connection := None,
             killed := killed w @ [ch], child := None,
             shutdowns := (shutdowns w)[j := ShutdownReturned]\<rparr>"
  using assms by (simp add: shutdown_end_def set_shutdown_state_def)

lemma shutdown_through_alone:
  assumes "connection w = Some c" and "child w = Some ch"
  shows "shutdown_through h requestOk exitOk [] [] w =
           w\<lparr>shuttingDown := True,
             sent := sent w @ (if requestOk then [(c, ShutdownRequest), (c, ExitNotification)]
                               else [(c, ShutdownRequest)]),
             logs := logs w @ (if requestOk \<and> exitOk then []
                               else [(Warn, ''Failed to send shutdown request'')]),
             disposed := disposed w @ [c], connection := None,
             killed := killed w @ [ch], child := None,
             shutdowns := shutdowns w @ [ShutdownReturned]\<rparr>"
  using assms
  by (simp add: shutdown_through_def shutdown_begins shutdownSettled_def exitSettled_def
        shutdown_state_of_def set_shutdown_state_def shutdown_end_def sendOn_def log_def)

lemma shutdown_through_completes:
  assumes "initializePromise w = Some p" and "connection w = Some c" and "child w = Some ch"
    and "list_all (\<lambda>e. \<not> shutdown_event e) es1"
    and "list_all (\<lambda>e. \<not> shutdown_event e) es2"
  shows "shutdown_state_of (shutdown_through h requestOk exitOk es1 es2 w)
           (length (shutdowns w)) = Some ShutdownReturned
       \<and> connection (shutdown_through h requestOk exitOk es1 es2 w) = None
       \<and> child (shutdown_through h requestOk exitOk es1 es2 w) = None
       \<and> c \<in> set (disposed (shutdown_through h requestOk exitOk es1 es2 w))
       \<and> ch \<in> set (killed (shutdown_through h requestOk exitOk es1 es2 w))
       \<and> (c, ShutdownRequest) \<in> set (sent (shutdown_through h requestOk exitOk es1 es2 w))
       \<and> (requestOk \<longrightarrow>
            (c, ExitNotification) \<in> set (sent (shutdown_through h requestOk exitOk es1 es2 w)))
       \<and> (\<not> (requestOk \<and> exitOk) \<longrightarrow>
            (Warn, ''Failed to send shutdown request'')
              \<in> set (logs (shutdown_through h requestOk exitOk es1 es2 w)))
       \<and> initializePromise (shutdown_through h requestOk exitOk es1 es2 w) = Some p"
proof -
  let ?j = "length (shutdowns w)"
  let ?w1 = "snd (shutdown w)"
  let ?wa = "run h es1 ?w1"
  let ?w2 = "shutdownSettled ?j requestOk ?wa"
  let ?wb = "run h es2 ?w2"
  let ?w3 = "exitSettled ?j exitOk ?wb"
  have t: "shutdown_through h requestOk exitOk es1 es2 w = ?w3"
    by (simp add: shutdown_through_def)
  have w1: "initializePromise ?w1 = Some p" "connection ?w1 = Some c" "child ?w1 = Some ch"
    "shutdowns ?w1 = shutdowns w @ [AwaitingShutdown]" "(c, ShutdownRequest) \<in> set (sent ?w1)"
    using assms(1-3) by (simp_all add: shutdown_begins [OF assms(2,3)])
  note a = live_other_run [OF w1(1) assms(4), of h]
  have wa: "initializePromise ?wa = Some p" "connection ?wa = Some c" "child ?wa = Some ch"
    "shutdown_state_of ?wa ?j = Some AwaitingShutdown" "(c, ShutdownRequest) \<in> set (sent ?wa)"
    using a w1 grows_run [of ?w1 h es1]
    by (auto simp: shutdown_state_of_def grows_def split: if_splits)
  show ?thesis
  proof (cases requestOk)
    case True
    have w2: "initializePromise ?w2 = Some p" "connection ?w2 = Some c" "child ?w2 = Some ch"
      "shutdown_state_of ?w2 ?j = Some AwaitingExit" "(c, ShutdownRequest) \<in> set (sent ?w2)"
      "(c, ExitNotification) \<in> set (sent ?w2)"
      using wa True
      by (auto simp: shutdownSettled_def set_shutdown_state_def shutdown_state_of_def
            sendOn_def split: if_splits)
    note b = live_other_run [OF w2(1) assms(5), of h]
    have wb: "initializePromise ?wb = Some p" "connection ?wb = Some c" "child ?wb = Some ch"
      "shutdown_state_of ?wb ?j = Some AwaitingExit" "(c, ShutdownRequest) \<in> set (sent ?wb)"
      "(c, ExitNotification) \<in> set (sent ?wb)"
      using b w2 grows_run [of ?w2 h es2]
      by (auto simp: shutdown_state_of_def grows_def split: if_splits)
    show ?thesis
      unfolding t using wb True
      by (auto simp: exitSettled_def shutdown_end_def set_shutdown_state_def
            shutdown_state_of_def log_def split: if_splits)
  next
    case False
    have w2: "initializePromise ?w2 = Some p" "connection ?w2 = None" "child ?w2 = None"
      "shutdown_state_of ?w2 ?j = Some ShutdownReturned" "(c, ShutdownRequest) \<in> set (sent ?w2)"
      "c \<in> set (disposed ?w2)" "ch \<in> set (killed ?w2)"
      "(Warn, ''Failed to send shutdown request'') \<in> set (logs ?w2)"
      using wa False
      by (auto simp: shutdownSettled_def shutdown_end_def set_shutdown_state_def
            shutdown_state_of_def log_def split: if_splits)
    note b = live_other_run [OF w2(1) assms(5), of h]
    have wb: "initializePromise ?wb = Some p" "connection ?wb = None" "child ?wb = None"
      "shutdown_state_of ?wb ?j = Some ShutdownReturned" "(c, ShutdownRequest) \<in> set (sent ?wb)"
      "c \<in> set (disposed ?wb)" "ch \<in> set (killed ?wb)"
      "(Warn, ''Failed to send shutdown request'') \<in> set (logs ?wb)"
      using b w2 grows_run [of ?w2 h es2]
      by (auto simp: shutdown_state_of_def grows_def split: if_splits)
    show ?thesis
      unfolding t using wb False
      by (auto simp: exitSettled_def split: if_splits)
  qed
qed

lemma run_append: "run h (xs @ ys) w = run h ys (run h xs w)"
  by (induction xs arbitrary: w) simp_all

lemma shutdown_through_run:
  "shutdown_through h requestOk exitOk es1 es2 w =
     run h (CallShutdown # es1 @ ShutdownSettled (length (shutdowns w)) requestOk
              # es2 @ [ExitSettled (length (shutdowns w)) exitOk]) w"
  by (simp add: shutdown_through_def run_append)



section \<open>Concrete runs\<close>

text \<open>
  The ready client in full; the same client waiting for a first report on \<^verbatim>\<open>a.ts\<close>;
  after a hover on \<^verbatim>\<open>a.ts\<close> and a report for it; and after a shutdown that followed.
\<close>

lemma ready0_eq:
  "ready0 =
     \<lparr>options = opts0, workspaceRoot = ''/ws'', initializationTimeout = 10000,
      diagnosticsTimeout = 1500, child = Some 0, connection = Some 0,
      initializePromise = Some 0, shuttingDown = False, openDocuments = Map.empty,
      diagnostics = Map.empty, diagnosticsEvents = [],
      starts = [(\<lparr>spawn_command = ''tsgo'', spawn_args = [''--lsp'', ''--stdio''],
                  spawn_cwd = ''/ws'', spawn_env = [(''TSC_COMPILE_ON_ERROR'', ''true'')]\<rparr>,
                 Returned result0)],
      errorListeners = [0], timers = [],
      sent = [(0, InitializeRequest ''file:///ws'' ''/ws''), (0, InitializedNotification)],
      disposed = [], killed = [], waiters = [], handlerCalls = [], shutdowns = [],
      logs = [(Info, ''Starting tsgo language server''),
              (Info, ''tsgo language server initialized'')]\<rparr>"
  by (simp add: ready0_def h0_def opts0_def new_client_def initialize_def start_def
        handshake_defs toFileUri_def root0 DEFAULT_INITIALIZATION_TIMEOUT_MS_def
        DEFAULT_DIAGNOSTICS_TIMEOUT_MS_def)


lemma waiting0_eq:
  "getDiagnostics h0 disk0 ''a.ts'' ready0 =
     (AwaitsDiagnostics 0,
      ready0\<lparr>sent := sent ready0 @
                 [(0, DidOpenTextDocument ''file:///ws/a.ts'' ''typescript'' 1 ''let x = 1'')],
             openDocuments := [''file:///ws/a.ts'' \<mapsto>
                \<lparr>doc_uri = ''file:///ws/a.ts'', doc_path = ''/ws/a.ts'',
                 doc_version = 1, doc_text = ''let x = 1''\<rparr>],
             waiters := [\<lparr>waiter_uri = ''file:///ws/a.ts'', waiter_value = None\<rparr>],
             timers := [(DiagTimer 0, 1500)],
             diagnosticsEvents := [(''file:///ws/a.ts'', 0)]\<rparr>)"
  using getDiagnostics_waits [where disk = disk0, OF ready0_fields(1) ensure0]
  by (simp add: new_waiter_def ready0_eq)

lemma reported0_eq:
  "reported0 = opened0\<lparr>diagnostics := [''file:///ws/a.ts'' \<mapsto> report0]\<rparr>"
  by (simp add: reported0_def publishDiagnostics_def handleDiagnostics_def emit_def
        opened0_eq ready0_eq report0_def)

lemma shut0_through: "shut0 = shutdown_through h0 True True [] [] reported0"
  by (simp add: shut0_def shutdown_through_def reported0_eq opened0_eq ready0_eq)

lemma shut0_eq:
  "shut0 = reported0\<lparr>shuttingDown := True,
             sent := sent reported0 @ [(0, ShutdownRequest), (0, ExitNotification)],
             logs := logs reported0,
             disposed := [0], connection := None, killed := [0], child := None,
             shutdowns := [ShutdownReturned]\<rparr>"
proof -
  have "connection reported0 = Some 0" "child reported0 = Some 0"
    "disposed reported0 = []" "killed reported0 = []" "shutdowns reported0 = []"
    by (simp_all add: reported0_eq opened0_eq ready0_eq)
  then show ?thesis
    using shutdown_through_alone [of reported0 0 0 h0 True True]
    by (simp add: shut0_through)
qed

lemma shut0_fields:
  "initializePromise shut0 = Some 0" "promise_state shut0 0 = Fulfilled result0"
  "connection shut0 = None" "workspaceRoot shut0 = ''/ws''"
  "openDocuments shut0 ''file:///ws/a.ts'' =
     Some \<lparr>doc_uri = ''file:///ws/a.ts'', doc_path = ''/ws/a.ts'',
           doc_version = 1, doc_text = ''let x = 1''\<rparr>"
  "diagnostics shut0 ''file:///ws/a.ts'' = Some report0"
  by (simp_all add: shut0_eq reported0_eq opened0_eq ready0_eq promise_state_def
        start_state_of_def)

lemma run_ready0:
  "run h0 [CallInitialize, InitializeResponse 0 result0, InitializedSettled 0 True]
     (new_client h0 opts0) = ready0"
  by (simp add: ready0_def)

lemma run_waiting0:
  "run h0 [CallInitialize, InitializeResponse 0 result0, InitializedSettled 0 True,
           CallGetDiagnostics disk0 ''a.ts''] (new_client h0 opts0) = waiting0"
  by (simp add: waiting0_def ready0_def)

lemma run_reported0:
  "run h0 [CallInitialize, InitializeResponse 0 result0, InitializedSettled 0 True,
           CallGetHover disk0 ''a.ts'' pos0, PublishDiagnostics 0 report0]
     (new_client h0 opts0) = reported0"
  by (simp add: reported0_def opened0_def ready0_def)

lemma run_shut0:
  "run h0 [CallInitialize, InitializeResponse 0 result0, InitializedSettled 0 True,
           CallGetHover disk0 ''a.ts'' pos0, PublishDiagnostics 0 report0,
           CallShutdown, ShutdownSettled 0 True, ExitSettled 0 True]
     (new_client h0 opts0) = shut0"
  by (simp add: shut0_def reported0_def opened0_def ready0_def)

lemma waiting0_snd: "waiting0 = snd (getDiagnostics h0 disk0 ''a.ts'' ready0)"
  by (simp add: waiting0_def)

lemma waiting0_fields:
  "pending_timer waiting0 (DiagTimer 0)"
  "waiters waiting0 = [\<lparr>waiter_uri = ''file:///ws/a.ts'', waiter_value = None\<rparr>]"
  "length (starts waiting0) = 1" "disposed waiting0 = []"
  "(DiagTimer 0, 1500) \<in> set (timers waiting0)" "starts waiting0 \<noteq> []"
  unfolding waiting0_snd waiting0_eq by (simp_all add: pending_timer_def ready0_eq)

lemma reported0_fields:
  "ready reported0" "workspaceRoot reported0 = ''/ws''"
  "connection reported0 = Some 0" "child reported0 = Some 0"
  "initializePromise reported0 = Some 0" "promise_state reported0 0 = Fulfilled result0"
  "openDocuments reported0 ''file:///ws/a.ts'' =
     Some \<lparr>doc_uri = ''file:///ws/a.ts'', doc_path = ''/ws/a.ts'',
           doc_version = 1, doc_text = ''let x = 1''\<rparr>"
  "diagnostics reported0 ''file:///ws/a.ts'' = Some report0"
  by (simp_all add: reported0_eq opened0_eq ready0_eq ready_def promise_state_def
        start_state_of_def)

lemma ensure_same0:
  assumes "workspaceRoot w = ''/ws''"
    and "openDocuments w ''file:///ws/a.ts'' =
           Some \<lparr>doc_uri = ''file:///ws/a.ts'', doc_path = ''/ws/a.ts'',
                 doc_version = 1, doc_text = ''let x = 1''\<rparr>"
  shows "ensureDocument h0 disk0 ''a.ts'' w =
           (Inr (\<lparr>doc_uri = ''file:///ws/a.ts'', doc_path = ''/ws/a.ts'',
                   doc_version = 1, doc_text = ''let x = 1''\<rparr>, ''file:///ws/a.ts''), w)"
proof -
  have p: "toAbsolutePath (cwd h0) (workspaceRoot w) ''a.ts'' = Inr ''/ws/a.ts''"
    by (simp add: assms path0 h0_def)
  have d: "disk0 ''/ws/a.ts'' = Some ''let x = 1''"
    by (simp add: disk0_def)
  show ?thesis
    using ensureDocument_same [where disk = disk0, OF p d]
    by (simp add: assms toFileUri_def h0_def)
qed


section \<open>The diagnostics operation and its waiters\<close>

text \<open>
  C4. On a ready client reached by any run from a new client, when the document of the
  path synchronizes: if a report is cached for the document's uri, \<open>getDiagnostics\<close>
  returns it at once and builds no waiter; otherwise it answers the promise of a new
  waiter whose timer is set to the diagnostics timeout (1500 ms unless the options give
  one), and after any further events other than that timer and a report for that uri the
  waiter is still unresolved, the timer firing then resolves it with the empty report for
  that uri, and a report for that uri delivered then resolves it with that report.
\<close>

theorem getDiagnostics_cached_or_waits:
  assumes "ready (run h es0 (new_client h opts))"
    and "ensureDocument h disk filePath (run h es0 (new_client h opts)) = (Inr (st, uri), w2)"
  shows "(diagnostics (run h es0 (new_client h opts)) uri = Some cached \<longrightarrow>
            getDiagnostics h disk filePath (run h es0 (new_client h opts)) = (Returns cached, w2))
       \<and> (diagnostics (run h es0 (new_client h opts)) uri = None \<longrightarrow>
            fst (getDiagnostics h disk filePath (run h es0 (new_client h opts)))
              = AwaitsDiagnostics (length (waiters w2))
          \<and> (DiagTimer (length (waiters w2)),
               case diagnosticsTimeoutMs opts of Some t \<Rightarrow> t | None \<Rightarrow> 1500)
              \<in> set (timers (snd (getDiagnostics h disk filePath
                                    (run h es0 (new_client h opts)))))
          \<and> (list_all (quiet uri (length (waiters w2))) es \<longrightarrow>
                waiter_value (waiters (run h es (snd (getDiagnostics h disk filePath
                    (run h es0 (new_client h opts))))) ! length (waiters w2)) = None
              \<and> waiter_value (waiters (step h (TimerFires (DiagTimer (length (waiters w2))))
                    (run h es (snd (getDiagnostics h disk filePath
                       (run h es0 (new_client h opts)))))) ! length (waiters w2))
                  = Some \<lparr>pd_uri = uri, pd_diagnostics = []\<rparr>
              \<and> (pd_uri p = uri
                   \<and> c < length (starts (run h es (snd (getDiagnostics h disk filePath
                                   (run h es0 (new_client h opts))))))
                   \<and> c \<notin> set (disposed (run h es (snd (getDiagnostics h disk filePath
                                   (run h es0 (new_client h opts)))))) \<longrightarrow>
                  waiter_value (waiters (step h (PublishDiagnostics c p)
                      (run h es (snd (getDiagnostics h disk filePath
                         (run h es0 (new_client h opts)))))) ! length (waiters w2))
                    = Some p)))"
proof -
  let ?w = "run h es0 (new_client h opts)"
  let ?k = "length (waiters w2)"
  let ?g = "snd (getDiagnostics h disk filePath ?w)"
  have inv: "diag_inv ?w"
    by (simp add: diag_inv_new diag_inv_run)
  have w2: "w2 = snd (ensureDocument h disk filePath ?w)"
    using assms(2) by simp
  have inv2: "diag_inv w2"
    using inv diag_inv_view [OF view_ensureDocument, of h disk filePath ?w] w2 by simp
  have len: "waiters w2 = waiters ?w"
    using view_fields(1) [OF view_ensureDocument, of h disk filePath ?w] w2 by simp
  have timeout: "diagnosticsTimeout w2
                   = (case diagnosticsTimeoutMs opts of Some t \<Rightarrow> t | None \<Rightarrow> 1500)"
  proof -
    have "diagnosticsTimeout (new_client h opts)
            = (case diagnosticsTimeoutMs opts of Some t \<Rightarrow> t | None \<Rightarrow> 1500)"
      by (simp add: new_client_def DEFAULT_DIAGNOSTICS_TIMEOUT_MS_def split: option.splits)
    then show ?thesis
      using ensureDocument_keeps(2) [of h disk filePath ?w] w2 by (simp add: timeout_run)
  qed
  have cached: "getDiagnostics h disk filePath ?w = (Returns cached, w2)"
    if "diagnostics ?w uri = Some cached"
    using getDiagnostics_cached [OF assms that] .
  have waits: ?thesis if none: "diagnostics ?w uri = None"
  proof -
    have g: "getDiagnostics h disk filePath ?w = (AwaitsDiagnostics ?k, snd (new_waiter uri w2))"
      using getDiagnostics_waits [OF assms none] len by simp
    have invg: "diag_inv ?g"
      using g diag_inv_new_waiter [OF inv2, of uri] by simp
    have wtg: "waiting ?g ?k uri"
      using g new_waiter_waiting [of uri w2] by simp
    have timer: "(DiagTimer ?k, case diagnosticsTimeoutMs opts of Some t \<Rightarrow> t | None \<Rightarrow> 1500)
                   \<in> set (timers ?g)"
      using g timeout by (simp add: new_waiter_def Let_def)
    have later: "waiter_value (waiters (run h es ?g) ! ?k) = None
              \<and> waiter_value (waiters (step h (TimerFires (DiagTimer ?k)) (run h es ?g)) ! ?k)
                  = Some \<lparr>pd_uri = uri, pd_diagnostics = []\<rparr>
              \<and> (pd_uri p = uri \<and> c < length (starts (run h es ?g))
                   \<and> c \<notin> set (disposed (run h es ?g)) \<longrightarrow>
                  waiter_value (waiters (step h (PublishDiagnostics c p) (run h es ?g)) ! ?k)
                    = Some p)"
      if q: "list_all (quiet uri ?k) es"
    proof -
      have inve: "diag_inv (run h es ?g)"
        using invg by (rule diag_inv_run)
      have wte: "waiting (run h es ?g) ?k uri"
        using waiting_run [OF invg wtg q] .
      show ?thesis
        using wte waiting_timeout(1) [OF inve wte] waiting_notified(1) [OF inve wte]
        by (simp add: waiting_def)
    qed
    show ?thesis
      using none g timer later by simp
  qed
  show ?thesis
  proof (cases "diagnostics ?w uri")
    case None
    then show ?thesis by (rule waits)
  next
    case (Some r)
    then show ?thesis using cached by simp
  qed
qed

theorem getDiagnostics_cached_or_waits_witness:
  "getDiagnostics h0 disk0 ''a.ts'' reported0 = (Returns report0, reported0)
   \<and> fst (getDiagnostics h0 disk0 ''a.ts'' ready0) = AwaitsDiagnostics 0
   \<and> (DiagTimer 0, 1500) \<in> set (timers waiting0)
   \<and> waiter_value (waiters (run h0 [ConnectionError 0] waiting0) ! 0) = None
   \<and> waiter_value (waiters (step h0 (TimerFires (DiagTimer 0))
         (run h0 [ConnectionError 0] waiting0)) ! 0)
       = Some \<lparr>pd_uri = ''file:///ws/a.ts'', pd_diagnostics = []\<rparr>
   \<and> waiter_value (waiters (step h0 (PublishDiagnostics 0 report0)
         (run h0 [ConnectionError 0] waiting0)) ! 0) = Some report0"
proof -
  have r: "ready (run h0 [CallInitialize, InitializeResponse 0 result0,
             InitializedSettled 0 True] (new_client h0 opts0))"
    unfolding run_ready0 by (rule ready0_fields(1))
  have e: "ensureDocument h0 disk0 ''a.ts'' (run h0 [CallInitialize,
             InitializeResponse 0 result0, InitializedSettled 0 True] (new_client h0 opts0)) =
             (Inr (\<lparr>doc_uri = ''file:///ws/a.ts'', doc_path = ''/ws/a.ts'',
                     doc_version = 1, doc_text = ''let x = 1''\<rparr>, ''file:///ws/a.ts''),
              ready0\<lparr>sent := sent ready0 @
                 [(0, DidOpenTextDocument ''file:///ws/a.ts'' ''typescript'' 1 ''let x = 1'')],
                openDocuments := [''file:///ws/a.ts'' \<mapsto>
                  \<lparr>doc_uri = ''file:///ws/a.ts'', doc_path = ''/ws/a.ts'',
                   doc_version = 1, doc_text = ''let x = 1''\<rparr>]\<rparr>)"
    unfolding run_ready0 by (rule ensure0)
  have r': "ready (run h0 [CallInitialize, InitializeResponse 0 result0,
             InitializedSettled 0 True, CallGetHover disk0 ''a.ts'' pos0,
             PublishDiagnostics 0 report0] (new_client h0 opts0))"
    unfolding run_reported0 by (rule reported0_fields(1))
  have e': "ensureDocument h0 disk0 ''a.ts'' (run h0 [CallInitialize,
             InitializeResponse 0 result0, InitializedSettled 0 True,
             CallGetHover disk0 ''a.ts'' pos0, PublishDiagnostics 0 report0]
             (new_client h0 opts0)) =
             (Inr (\<lparr>doc_uri = ''file:///ws/a.ts'', doc_path = ''/ws/a.ts'',
                     doc_version = 1, doc_text = ''let x = 1''\<rparr>, ''file:///ws/a.ts''),
              reported0)"
    unfolding run_reported0 by (rule ensure_same0 [OF reported0_fields(2,7)])
  have q: "list_all (quiet ''file:///ws/a.ts'' 0) [ConnectionError 0]"
    by (simp add: quiet_def)
  have u: "pd_uri report0 = ''file:///ws/a.ts''"
    by (simp add: report0_def)
  have s: "length (starts (run h0 [ConnectionError 0] waiting0)) = 1"
    "disposed (run h0 [ConnectionError 0] waiting0) = []"
    "starts (run h0 [ConnectionError 0] waiting0) \<noteq> []"
    by (simp_all add: connectionError_def log_def waiting0_fields)
  have n: "diagnostics ready0 ''file:///ws/a.ts'' = None" "waiters ready0 = []"
    by (simp_all add: ready0_eq)
  show ?thesis
    using getDiagnostics_cached_or_waits [where disk = disk0 and cached = report0
        and es = "[ConnectionError 0]" and p = report0 and c = 0, OF r e,
        unfolded run_ready0 waiting0_snd [symmetric]]
      getDiagnostics_cached_or_waits [where disk = disk0 and cached = report0
        and es = "[]" and p = report0 and c = 0, OF r' e', unfolded run_reported0]
      q u s n
    by (simp add: waiting0_fields ready0_fields reported0_fields(8) opts0_def)
qed

text \<open>
  C7. In any state reached by a run from a new client, for a waiter whose timer is
  pending: when the timer fires, the waiter's listener is no longer registered, the waiter
  is resolved with the empty report for its uri and stays so through every further run,
  and its handler is never called in any further run; and when instead a report for its
  uri is delivered, the timer is no longer pending, the waiter is resolved with that
  report and its handler has been called exactly once.
\<close>

theorem timed_out_waiter_is_deregistered:
  assumes "pending_timer (run h es0 (new_client h opts)) (DiagTimer k)"
  shows "k \<notin> snd ` set (diagnosticsEvents
            (step h (TimerFires (DiagTimer k)) (run h es0 (new_client h opts))))
       \<and> waiter_value (waiters (run h es
            (step h (TimerFires (DiagTimer k)) (run h es0 (new_client h opts)))) ! k)
           = Some \<lparr>pd_uri = waiter_uri (waiters (run h es0 (new_client h opts)) ! k),
                   pd_diagnostics = []\<rparr>
       \<and> k \<notin> set (handlerCalls (run h es
            (step h (TimerFires (DiagTimer k)) (run h es0 (new_client h opts)))))
       \<and> (pd_uri p = waiter_uri (waiters (run h es0 (new_client h opts)) ! k)
            \<and> c < length (starts (run h es0 (new_client h opts)))
            \<and> c \<notin> set (disposed (run h es0 (new_client h opts))) \<longrightarrow>
          \<not> pending_timer (step h (PublishDiagnostics c p) (run h es0 (new_client h opts)))
              (DiagTimer k)
          \<and> waiter_value (waiters
               (step h (PublishDiagnostics c p) (run h es0 (new_client h opts))) ! k) = Some p
          \<and> count_list (handlerCalls
               (step h (PublishDiagnostics c p) (run h es0 (new_client h opts)))) k = 1)"
proof -
  let ?w = "run h es0 (new_client h opts)"
  let ?u = "waiter_uri (waiters ?w ! k)"
  let ?t = "step h (TimerFires (DiagTimer k)) ?w"
  have inv: "diag_inv ?w"
    by (simp add: diag_inv_new diag_inv_run)
  have wt: "waiting ?w k ?u"
    using pending_waiting [OF inv assms] .
  note t = waiting_timeout [OF inv wt]
  have k: "k < length (waiters ?w)"
    using wt by (simp add: waiting_def)
  have len: "length (waiters ?t) = length (waiters ?w)"
    using diagTimerFires_fields(2) [OF assms k] by simp
  have ret: "retired ?t k"
    using t(2) k len by (simp add: retired_def)
  have inv': "diag_inv ?t"
    using inv by (rule diag_inv_step)
  note r = retired_run [OF inv' ret, of h es]
  have a: "k \<notin> snd ` set (diagnosticsEvents ?t)"
    using t(2) by simp
  have b: "waiter_value (waiters (run h es ?t) ! k) = Some \<lparr>pd_uri = ?u, pd_diagnostics = []\<rparr>"
    using r t(1) by simp
  have "count_list (handlerCalls (run h es ?t)) k = 0"
    using r t(4,5) by simp
  then have c: "k \<notin> set (handlerCalls (run h es ?t))"
    by (simp add: count_list_0_iff)
  have d: "\<not> pending_timer (step h (PublishDiagnostics c p) ?w) (DiagTimer k)
          \<and> waiter_value (waiters (step h (PublishDiagnostics c p) ?w) ! k) = Some p
          \<and> count_list (handlerCalls (step h (PublishDiagnostics c p) ?w)) k = 1"
    if "pd_uri p = ?u" "c < length (starts ?w)" "c \<notin> set (disposed ?w)"
    using waiting_notified(1,2,3) [OF inv wt that] by simp
  show ?thesis
    using a b c d by blast
qed

theorem timed_out_waiter_is_deregistered_witness:
  "0 \<notin> snd ` set (diagnosticsEvents (step h0 (TimerFires (DiagTimer 0)) waiting0))
   \<and> waiter_value (waiters (run h0 [PublishDiagnostics 0 report0]
         (step h0 (TimerFires (DiagTimer 0)) waiting0)) ! 0)
       = Some \<lparr>pd_uri = ''file:///ws/a.ts'', pd_diagnostics = []\<rparr>
   \<and> 0 \<notin> set (handlerCalls (run h0 [PublishDiagnostics 0 report0]
         (step h0 (TimerFires (DiagTimer 0)) waiting0)))
   \<and> \<not> pending_timer (step h0 (PublishDiagnostics 0 report0) waiting0) (DiagTimer 0)
   \<and> waiter_value (waiters (step h0 (PublishDiagnostics 0 report0) waiting0) ! 0) = Some report0
   \<and> count_list (handlerCalls (step h0 (PublishDiagnostics 0 report0) waiting0)) 0 = 1"
proof -
  have p: "pending_timer (run h0 [CallInitialize, InitializeResponse 0 result0,
             InitializedSettled 0 True, CallGetDiagnostics disk0 ''a.ts'']
             (new_client h0 opts0)) (DiagTimer 0)"
    unfolding run_waiting0 by (rule waiting0_fields(1))
  have u: "pd_uri report0 = ''file:///ws/a.ts''"
    by (simp add: report0_def)
  show ?thesis
    using timed_out_waiter_is_deregistered [OF p, of "[PublishDiagnostics 0 report0]" report0 0,
        unfolded run_waiting0] u
    by (simp add: waiting0_fields(2,3,4))
qed


section \<open>Shutdown\<close>




text \<open>
  The theorem leaves out calls of \<open>shutdown\<close> that overlap. There the second call
  passes the guard while the first is suspended, and at its end finds the connection
  null: it throws.
\<close>

lemma overlapping_shutdown_calls:
  "shutdowns (run h0 [CallShutdown, CallShutdown, ShutdownSettled 0 True,
                      ShutdownSettled 1 True, ExitSettled 0 True, ExitSettled 1 True] ready0)
     = [ShutdownReturned, ShutdownThrew NullDereference]"
  by (simp add: ready0_eq shutdown_defs)

section \<open>Operations after shutdown\<close>

text \<open>
  C10, as stated, fails for diagnostics: on a client that was initialized, opened
  \<^verbatim>\<open>a.ts\<close> by a hover, received a report for it and was then shut down,
  \<open>getDiagnostics\<close> on the unchanged file returns the cached report; it does not reject,
  although the connection is null and the memoized promise fulfilled.
\<close>

theorem diagnostics_after_shutdown_counterexample:
  "fst (getDiagnostics h0 disk0 ''a.ts''
     (run h0 [CallInitialize, InitializeResponse 0 result0, InitializedSettled 0 True,
              CallGetHover disk0 ''a.ts'' pos0, PublishDiagnostics 0 report0,
              CallShutdown, ShutdownSettled 0 True, ExitSettled 0 True]
        (new_client h0 opts0)))
     = Returns report0
   \<and> connection
        (run h0 [CallInitialize, InitializeResponse 0 result0, InitializedSettled 0 True,
                 CallGetHover disk0 ''a.ts'' pos0, PublishDiagnostics 0 report0,
                 CallShutdown, ShutdownSettled 0 True, ExitSettled 0 True]
           (new_client h0 opts0)) = None
   \<and> promise_state
        (run h0 [CallInitialize, InitializeResponse 0 result0, InitializedSettled 0 True,
                 CallGetHover disk0 ''a.ts'' pos0, PublishDiagnostics 0 report0,
                 CallShutdown, ShutdownSettled 0 True, ExitSettled 0 True]
           (new_client h0 opts0)) 0 = Fulfilled result0"
proof -
  have "ready shut0"
    by (simp add: ready_def shut0_fields)
  then have "getDiagnostics h0 disk0 ''a.ts'' shut0 = (Returns report0, shut0)"
    using getDiagnostics_cached [where disk = disk0, OF _ ensure_same0 [OF shut0_fields(4,5)]]
    by (simp add: shut0_fields)
  then show ?thesis
    unfolding run_shut0 by (simp add: shut0_fields)
qed


text \<open>
  C10, amended. After a completed shutdown of an initialized client with a live
  connection and subprocess, and after any further events: \<open>initialize\<close> still answers
  the memoized promise, fulfilled with the original result; on a path that resolves
  within the workspace to a readable file, hover, definition, references and document
  symbols throw "LSP connection has not been initialized" and leave the state as it was,
  so that nothing is written; and diagnostics does the same when the document has no
  state yet or the content on disk differs from its cached text.
\<close>

theorem operations_after_shutdown:
  assumes "initializePromise w0 = Some p" and "promise_state w0 p = Fulfilled r"
    and "connection w0 = Some c" and "child w0 = Some ch"
    and "list_all (\<lambda>e. \<not> shutdown_event e) (es1 @ es2)"
    and "w = run h es (shutdown_through h requestOk exitOk es1 es2 w0)"
    and "toAbsolutePath (cwd h) (workspaceRoot w) filePath = Inr absolutePath"
    and "disk absolutePath = Some text"
  shows "initialize h w = (p, w) \<and> promise_state w p = Fulfilled r
       \<and> getHover h disk filePath position w = (Throws ConnectionNotInitialized, w)
       \<and> getDefinition h disk filePath position w = (Throws ConnectionNotInitialized, w)
       \<and> findReferences h disk filePath position includeDeclaration w
           = (Throws ConnectionNotInitialized, w)
       \<and> documentSymbols h disk filePath w = (Throws ConnectionNotInitialized, w)
       \<and> ((case openDocuments w (toFileUri h absolutePath) of
              None \<Rightarrow> True | Some existing \<Rightarrow> doc_text existing \<noteq> text) \<longrightarrow>
            getDiagnostics h disk filePath w = (Throws ConnectionNotInitialized, w))"
proof -
  let ?s = "shutdown_through h requestOk exitOk es1 es2 w0"
  have es: "list_all (\<lambda>e. \<not> shutdown_event e) es1" "list_all (\<lambda>e. \<not> shutdown_event e) es2"
    using assms(5) by simp_all
  note fin = shutdown_through_completes [OF assms(1,3,4) es, of h requestOk exitOk]
  have "promise_state ?s p = Fulfilled r"
    unfolding shutdown_through_run using promise_settled_run [of w0 p h] assms(2)
    by (simp del: run.simps)
  then have "shut_down ?s p r"
    using fin by (simp add: shut_down_def)
  then have cl: "shut_down w p r"
    using shut_down_run [of ?s p r h es] assms(6) by simp
  note rq = shut_down_request_after_sync [where disk = disk, OF cl assms(7,8)]
  have "getDiagnostics h disk filePath w = (Throws ConnectionNotInitialized, w)"
    if "case openDocuments w (toFileUri h absolutePath) of
          None \<Rightarrow> True | Some existing \<Rightarrow> doc_text existing \<noteq> text"
  proof -
    have "ensureDocument h disk filePath w = (Inl ConnectionNotInitialized, w)"
      using that shut_down_ensureDocument [where disk = disk, OF cl assms(7,8)]
      by (cases "openDocuments w (toFileUri h absolutePath)") simp_all
    then show ?thesis
      using cl by (simp add: shut_down_def getDiagnostics_def initialize_memoized)
  qed
  then show ?thesis
    using cl
    by (simp add: shut_down_def initialize_memoized getHover_def getDefinition_def
          findReferences_def documentSymbols_def rq)
qed

theorem operations_after_shutdown_witness:
  "getHover h0 disk1 ''a.ts'' pos0 shut0 = (Throws ConnectionNotInitialized, shut0)
   \<and> getDefinition h0 disk1 ''a.ts'' pos0 shut0 = (Throws ConnectionNotInitialized, shut0)
   \<and> findReferences h0 disk1 ''a.ts'' pos0 True shut0 = (Throws ConnectionNotInitialized, shut0)
   \<and> documentSymbols h0 disk1 ''a.ts'' shut0 = (Throws ConnectionNotInitialized, shut0)
   \<and> getDiagnostics h0 disk1 ''a.ts'' shut0 = (Throws ConnectionNotInitialized, shut0)
   \<and> promise_state shut0 0 = Fulfilled result0"
proof -
  have w: "shut0 = run h0 [CallInitialize] (shutdown_through h0 True True [] [] reported0)"
    unfolding shut0_through [symmetric]
    by (simp add: initialize_memoized [OF shut0_fields(1)])
  have q: "list_all (\<lambda>e. \<not> shutdown_event e) ([] @ [])"
    by simp
  have p: "toAbsolutePath (cwd h0) (workspaceRoot shut0) ''a.ts'' = Inr ''/ws/a.ts''"
    by (simp add: shut0_fields path0 h0_def)
  have d: "disk1 ''/ws/a.ts'' = Some ''let x = 2''"
    by (simp add: disk1_def)
  show ?thesis
    using operations_after_shutdown [where disk = disk1 and position = pos0
        and includeDeclaration = True, OF reported0_fields(5,6,3,4) q w p d]
    by (simp add: shut0_fields toFileUri_def h0_def)
qed

end
